theory Spec2Isabelle
  imports Complex_Main "HOL-Library.Log_Nat" "HOL-Library.AList" "HOL-Library.Sublist"
begin

section \<open>Python floats\<close>

text \<open>
  Every number the estimator computes with is a Python \<^verbatim>\<open>float\<close>, an IEEE binary64 value.
  A finite float is modelled by the real number it denotes, and every arithmetic operation
  rounds its exact result to the nearest number with 53 significant bits, ties to the even
  significand, as the hardware does. The exponent range is not bounded: overflow to
  \<^verbatim>\<open>inf\<close>, gradual underflow, \<^verbatim>\<open>inf\<close> and \<^verbatim>\<open>nan\<close> themselves, and the
  \<^verbatim>\<open>OverflowError\<close> of converting an integer above the float range are outside the
  model. The sign of zero is not kept (\<^verbatim>\<open>-0.0 == 0.0\<close> in Python).
\<close>

definition round_half_even :: "real \<Rightarrow> int" where
  "round_half_even x =
     (if x - of_int \<lfloor>x\<rfloor> < 1/2 then \<lfloor>x\<rfloor>
      else if 1/2 < x - of_int \<lfloor>x\<rfloor> then \<lfloor>x\<rfloor> + 1
      else if even \<lfloor>x\<rfloor> then \<lfloor>x\<rfloor> else \<lfloor>x\<rfloor> + 1)"

text \<open>\<open>ilog2 x\<close> is the integer \<open>l\<close> with \<open>2 powi l \<le> x < 2 powi (l + 1)\<close>, for \<open>x > 0\<close>.\<close>

definition ilog2 :: "real \<Rightarrow> int" where
  "ilog2 x = (if 1 \<le> x then bitlen \<lfloor>x\<rfloor> - 1 else - bitlen (\<lceil>1 / x\<rceil> - 1))"

text \<open>
  \<open>fl x\<close> is the float nearest to \<open>x\<close>: \<open>x\<close> is scaled by a power of two so that its
  integer part has 53 bits, rounded to an integer (ties to even) and scaled back.
\<close>

definition round_at :: "int \<Rightarrow> real \<Rightarrow> real" where
  "round_at e x = of_int (round_half_even (x / 2 powi e)) * 2 powi e"

definition fl :: "real \<Rightarrow> real" where
  "fl x = (if x = 0 then 0 else round_at (ilog2 \<bar>x\<bar> - 52) x)"

definition fadd :: "real \<Rightarrow> real \<Rightarrow> real" where
  "fadd x y = fl (x + y)"

definition fsub :: "real \<Rightarrow> real \<Rightarrow> real" where
  "fsub x y = fl (x - y)"

definition fmul :: "real \<Rightarrow> real \<Rightarrow> real" where
  "fmul x y = fl (x * y)"

text \<open>Division by a non-zero float; the callers test for zero, where Python raises.\<close>

definition fdiv :: "real \<Rightarrow> real \<Rightarrow> real" where
  "fdiv x y = fl (x / y)"

text \<open>An \<^verbatim>\<open>int\<close> operand of a float operation is converted to the nearest float.\<close>

definition float_of_int :: "int \<Rightarrow> real" where
  "float_of_int n = fl (of_int n)"

text \<open>
  \<^verbatim>\<open>round(x, 2)\<close>: CPython rounds the exact value of \<open>x\<close> to two decimal places, ties to
  even, and returns the float nearest to that decimal number.
\<close>

definition round2 :: "real \<Rightarrow> real" where
  "round2 x = fl (of_int (round_half_even (x * 100)) / 100)"

text \<open>\<^verbatim>\<open>int(x)\<close> truncates a float towards zero.\<close>

definition py_int :: "real \<Rightarrow> int" where
  "py_int x = (if 0 \<le> x then \<lfloor>x\<rfloor> else \<lceil>x\<rceil>)"

text \<open>
  \<^verbatim>\<open>x // y\<close> and \<^verbatim>\<open>x % y\<close> on floats, as CPython computes them for \<open>y \<noteq> 0\<close>: the C
  function \<^verbatim>\<open>fmod\<close> is exact and its result has the sign of \<open>x\<close>; the quotient is
  recovered from \<^verbatim>\<open>(x - mod) / y\<close> and snapped to the nearest integer (\<open>rem\<close> and
  \<open>quo\<close> are the C variables \<^verbatim>\<open>mod\<close> and \<^verbatim>\<open>div\<close>).
\<close>

definition fmod :: "real \<Rightarrow> real \<Rightarrow> real" where
  "fmod vx wx = vx - wx * of_int (py_int (vx / wx))"

definition float_floordiv :: "real \<Rightarrow> real \<Rightarrow> real" where
  "float_floordiv vx wx =
     (let rem = fmod vx wx;
          quo = fdiv (fsub vx rem) wx;
          quo = (if rem \<noteq> 0 \<and> ((wx < 0) \<noteq> (rem < 0)) then fsub quo 1 else quo)
      in if quo \<noteq> 0
         then (let floordiv = of_int \<lfloor>quo\<rfloor>
               in if 1/2 < fsub quo floordiv then fadd floordiv 1 else floordiv)
         else 0)"

definition float_mod :: "real \<Rightarrow> real \<Rightarrow> real" where
  "float_mod vx wx =
     (let rem = fmod vx wx
      in if rem \<noteq> 0 \<and> ((wx < 0) \<noteq> (rem < 0)) then fadd rem wx else rem)"

section \<open>The estimator functions (estimator.py)\<close>

datatype py_error = ZeroDivisionError

text \<open>
  Each function takes the parameters of its Python signature; the constants below are the
  defaults written there. \<^verbatim>\<open>coats\<close> and \<^verbatim>\<open>num_points\<close> are integers, the literals
  \<^verbatim>\<open>0.1\<close> and \<^verbatim>\<open>0.05\<close> denote the floats nearest to them.
\<close>

definition paint_estimate :: "real \<Rightarrow> real \<Rightarrow> int \<Rightarrow> real \<Rightarrow> real \<Rightarrow> py_error + real \<times> real" where
  "paint_estimate wall_area_m2 coverage coats wastage price_per_litre =
     (if wall_area_m2 \<le> 0 then Inr (0, 0)
      else if coverage = 0 then Inl ZeroDivisionError
      else let litres = fmul (fmul (fdiv wall_area_m2 coverage) (float_of_int coats))
                             (fadd 1 wastage);
               material_cost = fmul litres price_per_litre
           in Inr (round2 litres, round2 material_cost))"

definition tiles_estimate :: "real \<Rightarrow> real \<Rightarrow> real \<Rightarrow> real \<times> real" where
  "tiles_estimate floor_area_m2 wastage rate_per_m2 =
     (if floor_area_m2 \<le> 0 then (0, 0)
      else let qty = fmul floor_area_m2 (fadd 1 wastage);
               cost = fmul qty rate_per_m2
           in (round2 qty, round2 cost))"

definition plumbing_estimate :: "int \<Rightarrow> real \<Rightarrow> real \<Rightarrow> real" where
  "plumbing_estimate num_points base_charge per_point =
     (if num_points \<le> 0 then 0
      else let total = fadd base_charge (fmul (float_of_int num_points) per_point)
           in round2 total)"

definition generic_labour :: "real \<Rightarrow> real \<Rightarrow> real" where
  "generic_labour area_m2 labour_rate_per_m2 =
     (if area_m2 \<le> 0 then 0 else round2 (fmul area_m2 labour_rate_per_m2))"

text \<open>The calls with default parameters.\<close>

definition paint_estimate_default :: "real \<Rightarrow> py_error + real \<times> real" where
  "paint_estimate_default wall_area_m2 = paint_estimate wall_area_m2 10 2 (fl (1/10)) 250"

definition tiles_estimate_default :: "real \<Rightarrow> real \<times> real" where
  "tiles_estimate_default floor_area_m2 = tiles_estimate floor_area_m2 (fl (5/100)) 600"

definition plumbing_estimate_default :: "int \<Rightarrow> real" where
  "plumbing_estimate_default num_points = plumbing_estimate num_points 500 300"

definition generic_labour_default :: "real \<Rightarrow> real" where
  "generic_labour_default area_m2 = generic_labour area_m2 30"

section \<open>Quote generation (main.py, \<^verbatim>\<open>SmartApp.generate_estimate\<close>)\<close>

subsection \<open>Strings\<close>

text \<open>
  \<^verbatim>\<open>str.lower\<close> on the letters \<^verbatim>\<open>A\<close> to \<^verbatim>\<open>Z\<close>; \<^verbatim>\<open>'paint' in s\<close> is
  \<^term>\<open>sublist ''paint'' s\<close>, the contiguous-substring test of the library.
\<close>

definition lower_char :: "char \<Rightarrow> char" where
  "lower_char c =
     (case map_of (zip ''ABCDEFGHIJKLMNOPQRSTUVWXYZ'' ''abcdefghijklmnopqrstuvwxyz'') c of
        None \<Rightarrow> c
      | Some l \<Rightarrow> l)"

definition lower :: "string \<Rightarrow> string" where
  "lower s = map lower_char s"

definition digit_char :: "nat \<Rightarrow> char" where
  "digit_char d = ''0123456789'' ! d"

function str_nat :: "nat \<Rightarrow> string" where
  "str_nat n = (if n < 10 then [digit_char n] else str_nat (n div 10) @ [digit_char (n mod 10)])"
  by pat_completeness auto
termination
  by (relation "measure id") auto

declare str_nat.simps [simp del]

text \<open>\<^verbatim>\<open>str(n)\<close> for an integer, as an f-string prints it.\<close>

definition str_int :: "int \<Rightarrow> string" where
  "str_int i = (if i < 0 then CHR ''-'' # str_nat (nat (- i)) else str_nat (nat i))"

fun join :: "string \<Rightarrow> string list \<Rightarrow> string" where
  "join sep [] = []"
| "join sep [x] = x"
| "join sep (x # y # ys) = x @ sep @ join sep (y # ys)"

subsection \<open>What the screen shows and what is stored\<close>

text \<open>
  The dictionary \<^verbatim>\<open>material_qty\<close> has at most the four keys below; a key that was not
  stored is \<open>None\<close>.
\<close>

record material_qty =
  paint_litres :: "real option"
  tiles_m2 :: "real option"
  plumbing_points :: "int option"
  generic_area :: "real option"

definition no_qty :: material_qty where
  "no_qty = \<lparr>paint_litres = None, tiles_m2 = None, plumbing_points = None, generic_area = None\<rparr>"

text \<open>
  A line of the breakdown is an f-string; the constructor names the line and carries the
  values formatted into it. Costs are printed with \<^verbatim>\<open>:.2f\<close>, quantities and counts as
  they are:
  \<^item> \<open>Title t\<close>: \<^verbatim>\<open>[b]{t}[/b]\<close>;
  \<^item> \<open>Paint_material litres mat_cost\<close>: \<^verbatim>\<open>Material: {litres} L paint -> {mat_cost:.2f}\<close>;
  \<^item> \<open>Tiles_material qty_m2 mat_cost\<close>: \<^verbatim>\<open>Material: {qty_m2} m2 tiles (incl. wastage) -> {mat_cost:.2f}\<close>;
  \<^item> \<open>Labour labour\<close>: \<^verbatim>\<open>Labour: {labour:.2f}\<close>;
  \<^item> \<open>Points n\<close>: \<^verbatim>\<open>Points: {n}\<close>;
  \<^item> \<open>Total pl_cost\<close>: \<^verbatim>\<open>Total: {pl_cost:.2f}\<close>;
  \<^item> \<open>Material_est material\<close>: \<^verbatim>\<open>Material est: {material:.2f}\<close>.
\<close>

datatype line =
    Title string
  | Paint_material real real
  | Tiles_material real real
  | Labour real
  | Points int
  | Total real
  | Material_est real

text \<open>
  The text \<^verbatim>\<open>mat_text\<close> under the breakdown:
  \<^item> \<open>ML_material v\<close>: \<^verbatim>\<open>ML material suggestion: {v}\<close>;
  \<^item> \<open>No_paint\<close>: \<^verbatim>\<open>Material suggestion: No paint required for 0 area.\<close>;
  \<^item> \<open>Paint_purchase parts litres\<close>: \<^verbatim>\<open>Purchase suggestion (paint): {parts}  (approx. {litres} L required)\<close>;
  \<^item> \<open>No_tiles\<close>: \<^verbatim>\<open>Material suggestion: No tiles required for 0 area.\<close>;
  \<^item> \<open>Tiles_purchase boxes covered sqm\<close>:
    \<^verbatim>\<open>Purchase suggestion (tiles): {boxes} boxes (covering ~{covered} m2) for required {sqm} m2\<close>;
  \<^item> \<open>Plumbing_parts pts\<close>: \<^verbatim>\<open>Purchase suggestion (plumbing): Basic parts for {pts} connection point(s).\<close>;
  \<^item> \<open>Generic_material a\<close>: \<^verbatim>\<open>Material suggestion: Approx. material for {a} m2 (use local supplier rates).\<close>
\<close>

datatype parts = Cans string | Litres real

datatype suggestion =
    ML_material string
  | No_paint
  | Paint_purchase parts real
  | No_tiles
  | Tiles_purchase int real real
  | Plumbing_parts int
  | Generic_material real

text \<open>
  What \<^verbatim>\<open>generate_estimate\<close> reads: the text of the service spinner, the area and point
  count parsed from the two text fields (\<^verbatim>\<open>0.0\<close> and \<^verbatim>\<open>0\<close> when a field is empty or
  does not parse), the chosen image, and what the two optional models predict for this
  request (\<open>None\<close> when the model is not loaded or its \<^verbatim>\<open>predict\<close> raises).
\<close>

record request =
  svc_text :: string
  area_in :: real
  points_in :: int
  current_image :: string
  ml_pred :: "real option"
  mat_pred :: "string option"

text \<open>
  What it leaves behind: the dictionary \<^verbatim>\<open>last_estimate\<close> (without its time stamp) and
  the texts of the quote screen; \<open>est_total\<close> is the value printed as
  \<^verbatim>\<open>Estimated total: {total:.2f}\<close>.
\<close>

record quote =
  service :: string
  area :: real
  points :: int
  total :: real
  breakdown :: "line list"
  image :: string
  mat_text :: suggestion
  est_total :: real
  ml_text :: "real option"

subsection \<open>Pricing: the first chain of branches\<close>

record pricing =
  p_total :: real
  p_breakdown :: "line list"
  p_material_qty :: material_qty

definition price :: "string \<Rightarrow> string \<Rightarrow> real \<Rightarrow> int \<Rightarrow> py_error + pricing" where
  "price svc s a pts =
     (if sublist ''paint'' s then
        (case paint_estimate_default a of
           Inl e \<Rightarrow> Inl e
         | Inr (litres, mat_cost) \<Rightarrow>
             (let labour = generic_labour_default a;
                  tot = fadd mat_cost labour
              in Inr \<lparr>p_total = tot,
                      p_breakdown = [Title ''Painting'', Paint_material litres mat_cost, Labour labour],
                      p_material_qty = no_qty\<lparr>paint_litres := Some litres\<rparr>\<rparr>))
      else if sublist ''tile'' s then
        (case tiles_estimate_default a of
           (qty_m2, mat_cost) \<Rightarrow>
             (let labour = generic_labour a (float_of_int 50);
                  tot = fadd mat_cost labour
              in Inr \<lparr>p_total = tot,
                      p_breakdown = [Title ''Tiling'', Tiles_material qty_m2 mat_cost, Labour labour],
                      p_material_qty = no_qty\<lparr>tiles_m2 := Some qty_m2\<rparr>\<rparr>))
      else if sublist ''plumb'' s then
        (let pl_cost = plumbing_estimate_default (if pts > 0 then pts else 1);
             tot = pl_cost
         in Inr \<lparr>p_total = tot,
                 p_breakdown = [Title ''Plumbing'', Points (max pts 1), Total pl_cost],
                 p_material_qty = no_qty\<lparr>plumbing_points := Some (max pts 1)\<rparr>\<rparr>)
      else
        (let labour = generic_labour a (float_of_int 80);
             material = fmul a (float_of_int 150);
             tot = fadd labour material
         in Inr \<lparr>p_total = tot,
                 p_breakdown = [Title svc, Material_est material, Labour labour],
                 p_material_qty = no_qty\<lparr>generic_area := Some a\<rparr>\<rparr>))"

subsection \<open>Purchase suggestion: the second chain of branches\<close>

text \<open>
  The loop \<^verbatim>\<open>for size in (10.0, 4.0, 1.0)\<close> over the can sizes (\<open>sz\<close> is the loop
  variable). The dictionary \<^verbatim>\<open>cans\<close> keeps its keys in insertion order, as
  \<^const>\<open>AList.update\<close> does.
\<close>

fun pack_cans :: "real list \<Rightarrow> real \<Rightarrow> (string \<times> int) list \<Rightarrow> real \<times> (string \<times> int) list" where
  "pack_cans [] needed cans = (needed, cans)"
| "pack_cans (sz # sizes) needed cans =
     (let cnt = py_int (float_floordiv needed sz)
      in if cnt > 0
         then pack_cans sizes (round2 (fsub needed (fmul (float_of_int cnt) sz)))
                (AList.update (str_int (py_int sz) @ ''L'') cnt cans)
         else pack_cans sizes needed cans)"

definition dict_get :: "(string \<times> int) list \<Rightarrow> string \<Rightarrow> int \<Rightarrow> int" where
  "dict_get d k dflt = (case map_of d k of None \<Rightarrow> dflt | Some v \<Rightarrow> v)"

definition paint_cans :: "real \<Rightarrow> (string \<times> int) list" where
  "paint_cans litres =
     (case pack_cans [10, 4, 1] litres [] of
        (needed, cans) \<Rightarrow>
          if needed > 0 then AList.update ''1L'' (dict_get cans ''1L'' 0 + 1) cans else cans)"

text \<open>The multiplication sign U+00D7 between count and size.\<close>

definition times_sign :: char where
  "times_sign = CHR 0xD7"

definition cans_text :: "(string \<times> int) list \<Rightarrow> string" where
  "cans_text cans = join '', '' (map (\<lambda>(k, v). str_int v @ [times_sign] @ k) cans)"

definition paint_suggestion :: "real \<Rightarrow> suggestion" where
  "paint_suggestion litres =
     (if litres \<le> 0 then No_paint
      else let cans = paint_cans litres;
               parts = (if cans \<noteq> [] then Cans (cans_text cans) else Litres litres)
           in Paint_purchase parts litres)"

definition box_cover :: real where
  "box_cover = fl (12/10)"

definition tile_boxes :: "real \<Rightarrow> int" where
  "tile_boxes sqm =
     (let boxes = py_int (float_floordiv sqm box_cover)
      in if float_mod sqm box_cover > 0 then boxes + 1 else boxes)"

definition tiles_suggestion :: "real \<Rightarrow> suggestion" where
  "tiles_suggestion sqm =
     (if sqm \<le> 0 then No_tiles
      else let boxes = tile_boxes sqm
           in Tiles_purchase boxes (round2 (fmul (float_of_int boxes) box_cover)) sqm)"

definition suggest :: "string \<Rightarrow> material_qty \<Rightarrow> suggestion" where
  "suggest s mq =
     (if sublist ''paint'' s then
        paint_suggestion (case paint_litres mq of None \<Rightarrow> 0 | Some l \<Rightarrow> l)
      else if sublist ''tile'' s then
        tiles_suggestion (case tiles_m2 mq of None \<Rightarrow> 0 | Some q \<Rightarrow> q)
      else if sublist ''plumb'' s then
        Plumbing_parts (case plumbing_points mq of None \<Rightarrow> 1 | Some n \<Rightarrow> n)
      else
        Generic_material (case generic_area mq of None \<Rightarrow> 0 | Some a \<Rightarrow> a))"

subsection \<open>The whole function\<close>

definition generate_estimate :: "request \<Rightarrow> py_error + quote" where
  "generate_estimate rq =
     (let svc = (if svc_text rq = [] \<or> svc_text rq = ''Select Service''
                 then ''Painting'' else svc_text rq);
          a = area_in rq;
          pts = points_in rq;
          s = lower svc
      in case price svc s a pts of
           Inl e \<Rightarrow> Inl e
         | Inr p \<Rightarrow>
             Inr \<lparr>service = svc, area = a, points = pts,
                  total = round2 (p_total p),
                  breakdown = p_breakdown p,
                  image = current_image rq,
                  mat_text = (case mat_pred rq of
                                Some v \<Rightarrow> ML_material v
                              | None \<Rightarrow> suggest s (p_material_qty p)),
                  est_total = p_total p,
                  ml_text = ml_pred rq\<rparr>)"

section \<open>The words of the specification\<close>

text \<open>
  The branches of the specification, and its dispatch rule: the service name is matched,
  ignoring case, against \<^verbatim>\<open>paint\<close>, \<^verbatim>\<open>tile\<close> and \<^verbatim>\<open>plumb\<close> in this order; a name
  matches a word when one of its substrings is the word up to case.
\<close>

datatype branch = Painting | Tiles | Plumbing | Generic

definition matches_ignoring_case :: "string \<Rightarrow> string \<Rightarrow> bool" where
  "matches_ignoring_case word name = (\<exists>ps u ss. name = ps @ u @ ss \<and> lower u = word)"

definition spec_branch :: "string \<Rightarrow> branch" where
  "spec_branch name =
     (if matches_ignoring_case ''paint'' name then Painting
      else if matches_ignoring_case ''tile'' name then Tiles
      else if matches_ignoring_case ''plumb'' name then Plumbing
      else Generic)"

text \<open>
  The packing of paint into cans as the specification words it: over the sizes 10, 4 and
  1, largest first, the count is the floor of the remaining litres by the size (the floor
  division of floats); a count above zero is recorded and taken off the remaining litres,
  which are rounded to two decimals again; a residue above zero after the three sizes adds
  one can of a litre. The cans are listed by descending size.
\<close>

definition spec_count :: "real \<Rightarrow> real \<Rightarrow> int" where
  "spec_count remaining sz = py_int (float_floordiv remaining sz)"

definition spec_rest :: "real \<Rightarrow> real \<Rightarrow> real" where
  "spec_rest remaining sz =
     (if spec_count remaining sz > 0
      then round2 (fsub remaining (fmul (float_of_int (spec_count remaining sz)) sz))
      else remaining)"

definition spec_cans :: "real \<Rightarrow> (string \<times> int) list" where
  "spec_cans litres =
     (let c10 = spec_count litres 10; r10 = spec_rest litres 10;
          c4 = spec_count r10 4; r4 = spec_rest r10 4;
          c1 = spec_count r4 1; r1 = spec_rest r4 1
      in filter (\<lambda>(k, c). c > 0)
           [(''10L'', c10), (''4L'', c4),
            (''1L'', (if c1 > 0 then c1 else 0) + (if r1 > 0 then 1 else 0))])"

section \<open>Reading a quote\<close>

text \<open>
  The material costs, the labour costs and the material quantities (litres of paint,
  square metres of tiles) that the breakdown of a quote lists.
\<close>

fun line_material_cost :: "line \<Rightarrow> real option" where
  "line_material_cost (Paint_material _ c) = Some c"
| "line_material_cost (Tiles_material _ c) = Some c"
| "line_material_cost (Material_est c) = Some c"
| "line_material_cost _ = None"

fun line_labour_cost :: "line \<Rightarrow> real option" where
  "line_labour_cost (Labour l) = Some l"
| "line_labour_cost _ = None"

fun line_quantity :: "line \<Rightarrow> real option" where
  "line_quantity (Paint_material l _) = Some l"
| "line_quantity (Tiles_material m _) = Some m"
| "line_quantity _ = None"

definition material_costs :: "quote \<Rightarrow> real list" where
  "material_costs q = List.map_filter line_material_cost (breakdown q)"

definition labour_costs :: "quote \<Rightarrow> real list" where
  "labour_costs q = List.map_filter line_labour_cost (breakdown q)"

definition material_quantities :: "quote \<Rightarrow> real list" where
  "material_quantities q = List.map_filter line_quantity (breakdown q)"

text \<open>The litres that a dictionary of cans holds.\<close>

definition capacity :: "(string \<times> int) list \<Rightarrow> int" where
  "capacity cans = 10 * dict_get cans ''10L'' 0 + 4 * dict_get cans ''4L'' 0 + dict_get cans ''1L'' 0"

text \<open>A float is rounded to two decimal places when \<^verbatim>\<open>round(x, 2)\<close> gives it back.\<close>

definition two_dp :: "real \<Rightarrow> bool" where
  "two_dp x \<longleftrightarrow> round2 x = x"

text \<open>
  The number that the format \<^verbatim>\<open>:.2f\<close> prints: CPython rounds the exact value of the
  float to two decimal places, ties to even, and prints that decimal number.
\<close>

definition shown_2f :: "real \<Rightarrow> real" where
  "shown_2f x = of_int (round_half_even (x * 100)) / 100"

section \<open>Auxiliary definitions\<close>

text \<open>
  The unrounded litres and tile quantity that the two estimators compute, with their
  default parameters, for an area above zero.
\<close>

definition paint_litres_raw :: "real \<Rightarrow> real" where
  "paint_litres_raw a = fmul (fmul (fdiv a 10) (float_of_int 2)) (fadd 1 (fl (1/10)))"

definition tiles_qty_raw :: "real \<Rightarrow> real" where
  "tiles_qty_raw a = fmul a (fadd 1 (fl (5/100)))"

text \<open>The float of a number of hundredths: every result of \<^const>\<open>round2\<close> is one.\<close>

definition hundredths :: "int \<Rightarrow> real" where
  "hundredths k = fl (of_int k / 100)"

section \<open>Evaluation\<close>

text \<open>Evaluating a float expression on numerals.\<close>

lemmas float_eval = fl_def round_at_def ilog2_def compute_bitlen round_half_even_def
  fadd_def fsub_def fmul_def fdiv_def float_of_int_def round2_def py_int_def fmod_def

text \<open>Evaluating the string functions on literals.\<close>

lemmas string_eval = lower_def lower_char_def sublist_code prefix_code

section \<open>Facts about float rounding\<close>

subsection \<open>Rounding to an integer\<close>

lemma round_half_even_disj:
  "(round_half_even x = \<lfloor>x\<rfloor> \<and> x - of_int \<lfloor>x\<rfloor> \<le> 1/2) \<or>
   (round_half_even x = \<lfloor>x\<rfloor> + 1 \<and> 1/2 \<le> x - of_int \<lfloor>x\<rfloor>)"
proof -
  define f where "f = \<lfloor>x\<rfloor>"
  define d where "d = x - of_int f"
  show ?thesis
    unfolding round_half_even_def f_def[symmetric] d_def[symmetric] by auto
qed

lemma round_half_even_lower: "x - 1/2 \<le> of_int (round_half_even x)"
proof -
  define f where "f = \<lfloor>x\<rfloor>"
  define r where "r = round_half_even x"
  have "(r = f \<and> x - of_int f \<le> 1/2) \<or> (r = f + 1 \<and> 1/2 \<le> x - of_int f)"
    unfolding r_def f_def by (rule round_half_even_disj)
  moreover have "x < of_int f + 1" unfolding f_def by simp
  ultimately show ?thesis unfolding r_def[symmetric] by auto
qed

lemma round_half_even_upper: "of_int (round_half_even x) \<le> x + 1/2"
proof -
  define f where "f = \<lfloor>x\<rfloor>"
  define r where "r = round_half_even x"
  have "(r = f \<and> x - of_int f \<le> 1/2) \<or> (r = f + 1 \<and> 1/2 \<le> x - of_int f)"
    unfolding r_def f_def by (rule round_half_even_disj)
  moreover have "of_int f \<le> x" unfolding f_def by simp
  ultimately show ?thesis unfolding r_def[symmetric] by auto
qed

lemma round_half_even_of_int [simp]: "round_half_even (of_int n) = n"
  unfolding round_half_even_def by simp

lemma round_half_even_unique:
  assumes "\<bar>x - of_int n\<bar> < 1/2" shows "round_half_even x = n"
proof -
  define r where "r = round_half_even x"
  have "x - 1/2 \<le> of_int r" "of_int r \<le> x + 1/2"
    unfolding r_def by (rule round_half_even_lower, rule round_half_even_upper)
  with assms have "\<bar>real_of_int r - of_int n\<bar> < 1" by linarith
  then have "\<bar>real_of_int (r - n)\<bar> < 1" by simp
  then have "\<bar>r - n\<bar> < 1" by (metis of_int_abs of_int_less_iff of_int_1)
  then show ?thesis unfolding r_def[symmetric] by simp
qed

lemma round_half_even_mono:
  assumes "x \<le> y" shows "round_half_even x \<le> round_half_even y"
proof (cases "x = y")
  case True then show ?thesis by simp
next
  case False
  define f where "f = \<lfloor>x\<rfloor>"
  define g where "g = \<lfloor>y\<rfloor>"
  define r where "r = round_half_even x"
  define s where "s = round_half_even y"
  have fg: "f \<le> g" unfolding f_def g_def using assms by (rule floor_mono)
  have rx: "(r = f \<and> x - of_int f \<le> 1/2) \<or> (r = f + 1 \<and> 1/2 \<le> x - of_int f)"
    unfolding r_def f_def by (rule round_half_even_disj)
  have sy: "(s = g \<and> y - of_int g \<le> 1/2) \<or> (s = g + 1 \<and> 1/2 \<le> y - of_int g)"
    unfolding s_def g_def by (rule round_half_even_disj)
  have "r \<le> s"
  proof (cases "f = g")
    case True
    with rx sy assms False show ?thesis by auto
  next
    case False
    with fg have "f + 1 \<le> g" by simp
    with rx sy show ?thesis by auto
  qed
  then show ?thesis unfolding r_def s_def .
qed

lemma round_half_even_minus: "round_half_even (- x) = - round_half_even x"
proof (cases "x \<in> \<int>")
  case True
  then obtain n where n: "x = of_int n" by (auto elim: Ints_cases)
  then have "- x = of_int (- n)" by simp
  then have "round_half_even (- x) = - n" by (simp only: round_half_even_of_int)
  then show ?thesis using n by simp
next
  case False
  define f where "f = \<lfloor>x\<rfloor>"
  define d where "d = x - of_int f"
  have fx: "of_int f \<noteq> x" using False unfolding f_def by (metis Ints_of_int)
  have "of_int f \<le> x" "x < of_int f + 1" unfolding f_def by simp_all
  with fx have d: "0 < d" "d < 1" unfolding d_def by simp_all
  have "\<lfloor>- x\<rfloor> = - f - 1"
    using \<open>of_int f \<le> x\<close> \<open>x < of_int f + 1\<close> fx by (intro floor_unique) auto
  then have f': "\<lfloor>- x\<rfloor> = - f - 1" and d': "- x - of_int \<lfloor>- x\<rfloor> = 1 - d"
    unfolding d_def by simp_all
  have e: "even (- f - 1) \<longleftrightarrow> odd f" by simp
  show ?thesis
    unfolding round_half_even_def[of "- x"] d' unfolding f' e
    unfolding round_half_even_def[of x] f_def[symmetric] d_def[symmetric]
    using d by auto
qed

subsection \<open>The binary exponent\<close>

lemma bitlen_pos: "0 < n \<Longrightarrow> 1 \<le> bitlen n"
  using bitlen_eq_zero_iff[of n] bitlen_nonneg[of n] by linarith

lemma powi2_neg: "0 \<le> b \<Longrightarrow> (2::real) powi (- b) = 1 / 2 ^ nat b"
  by (simp add: power_int_minus power_int_nonneg_exp inverse_eq_divide)

lemma ilog2_bounds:
  assumes "0 < x"
  shows "2 powi (ilog2 x) \<le> x" and "x < 2 powi (ilog2 x + 1)"
proof -
  have "2 powi (ilog2 x) \<le> x \<and> x < 2 powi (ilog2 x + 1)"
  proof (cases "1 \<le> x")
    case True
    define n where "n = \<lfloor>x\<rfloor>"
    define b where "b = bitlen n"
    have nx: "of_int n \<le> x" "x < of_int (n + 1)" by (simp_all add: n_def)
    have n: "0 < n" using True by (simp add: n_def)
    have b: "1 \<le> b" unfolding b_def using n by (rule bitlen_pos)
    from bitlen_bounds[OF n] have lo: "2 ^ nat (b - 1) \<le> n" and hi: "n < 2 ^ nat b"
      by (simp_all add: b_def)
    have il: "ilog2 x = b - 1" using True by (simp add: ilog2_def n_def b_def)
    have p1: "(2::real) powi (b - 1) = 2 ^ nat (b - 1)"
      using b by (simp add: power_int_def)
    have "(2::real) ^ nat (b - 1) \<le> of_int n" using lo by simp
    with nx(1) have 1: "2 powi (ilog2 x) \<le> x" unfolding il p1 by linarith
    have "n + 1 \<le> 2 ^ nat b" using hi by simp
    then have "real_of_int (n + 1) \<le> 2 ^ nat b" by (simp only: of_int_le_numeral_power_cancel_iff)
    moreover have p2: "(2::real) powi (b - 1 + 1) = 2 ^ nat b"
      using b by (simp add: power_int_def)
    ultimately have 2: "x < 2 powi (ilog2 x + 1)" using nx(2) unfolding il p2 by linarith
    from 1 2 show ?thesis ..
  next
    case False
    define y where "y = 1 / x"
    define m where "m = \<lceil>y\<rceil>"
    define b where "b = bitlen (m - 1)"
    have y: "1 < y" using False assms by (simp add: y_def)
    have my: "y \<le> of_int m" "of_int (m - 1) < y"
      unfolding m_def by (simp, linarith)
    have "1 < real_of_int m" using y my(1) by simp
    then have m: "0 < m - 1" by simp
    have b: "1 \<le> b" unfolding b_def using m by (rule bitlen_pos)
    from bitlen_bounds[OF m] have lo: "2 ^ nat (b - 1) \<le> m - 1" and hi: "m - 1 < 2 ^ nat b"
      by (simp_all add: b_def)
    have il: "ilog2 x = - b" using False by (simp add: ilog2_def m_def b_def y_def)
    have x: "x = 1 / y" by (simp add: y_def)
    have "m \<le> 2 ^ nat b" using hi by simp
    then have "real_of_int m \<le> 2 ^ nat b" by (simp only: of_int_le_numeral_power_cancel_iff)
    with my(1) have "y \<le> 2 ^ nat b" by linarith
    then have h1: "1 / (2 ^ nat b) \<le> 1 / y" using y by (simp add: frac_le)
    have pb: "(2::real) powi (- b) = 1 / 2 ^ nat b"
      using b by (intro powi2_neg) simp
    have "2 powi (- b) \<le> x" using h1 unfolding pb x .
    then have 1: "2 powi (ilog2 x) \<le> x" by (simp only: il)
    have "(2::real) ^ nat (b - 1) \<le> of_int (m - 1)"
      using lo by (simp only: numeral_power_le_of_int_cancel_iff)
    with my(2) have "2 ^ nat (b - 1) < y" by linarith
    then have h2: "1 / y < 1 / (2 ^ nat (b - 1))" by (simp add: frac_less2)
    have pb': "(2::real) powi (- b + 1) = 1 / 2 ^ nat (b - 1)"
      using powi2_neg[of "b - 1"] b by simp
    have "x < 2 powi (- b + 1)" using h2 unfolding pb' x .
    then have 2: "x < 2 powi (ilog2 x + 1)" by (simp only: il)
    from 1 2 show ?thesis ..
  qed
  then show "2 powi (ilog2 x) \<le> x" and "x < 2 powi (ilog2 x + 1)" by simp_all
qed

lemma powi2_less_imp: "(2::real) powi a < 2 powi b \<Longrightarrow> a < b"
  by (rule ccontr) (use power_int_increasing[of b a "2::real"] in simp)

lemma ilog2_unique:
  assumes "0 < x" "2 powi l \<le> x" "x < 2 powi (l + 1)"
  shows "ilog2 x = l"
proof -
  have "(2::real) powi l < 2 powi (ilog2 x + 1)"
    using assms(2) ilog2_bounds(2)[OF assms(1)] by linarith
  then have 1: "l < ilog2 x + 1" by (rule powi2_less_imp)
  have "(2::real) powi (ilog2 x) < 2 powi (l + 1)"
    using assms(3) ilog2_bounds(1)[OF assms(1)] by linarith
  then have 2: "ilog2 x < l + 1" by (rule powi2_less_imp)
  from 1 2 show ?thesis by linarith
qed

lemma ilog2_mono:
  assumes "0 < x" "x \<le> y" shows "ilog2 x \<le> ilog2 y"
proof -
  have y: "0 < y" using assms by simp
  have "(2::real) powi (ilog2 x) < 2 powi (ilog2 y + 1)"
    using ilog2_bounds(1)[OF assms(1)] ilog2_bounds(2)[OF y] assms by linarith
  then have "ilog2 x < ilog2 y + 1" by (rule powi2_less_imp)
  then show ?thesis by simp
qed

subsection \<open>Rounding to a float\<close>

lemma fl_zero [simp]: "fl 0 = 0"
  by (simp add: fl_def)

lemma fl_minus: "fl (- x) = - fl x"
  by (simp add: fl_def round_at_def round_half_even_minus)

lemma fl_pos_eq: "0 < x \<Longrightarrow> fl x = round_at (ilog2 x - 52) x"
  by (simp add: fl_def)

lemma scaled_bounds:
  assumes "0 < x"
  shows "2 ^ 52 \<le> x / 2 powi (ilog2 x - 52)" and "x / 2 powi (ilog2 x - 52) < 2 ^ 53"
proof -
  define l where "l = ilog2 x"
  define c where "c = (2::real) ^ 52"
  have c: "0 < c" unfolding c_def by simp
  have c2: "(2::real) ^ 53 = 2 * c" unfolding c_def by simp
  have p: "(0::real) < 2 powi l" by simp
  have lo: "2 powi l \<le> x" and hi: "x < 2 powi (l + 1)"
    unfolding l_def using ilog2_bounds[OF assms] by simp_all
  have d: "(2::real) powi (l - 52) = 2 powi l / c"
    unfolding c_def by (simp add: power_int_diff)
  have s: "(2::real) powi (l + 1) = 2 powi l * 2"
    by (simp add: power_int_add)
  have e: "x / (2 powi l / c) = (x / 2 powi l) * c" by simp
  have "1 \<le> x / 2 powi l" using lo p by (simp add: le_divide_eq)
  then have "1 * c \<le> (x / 2 powi l) * c" using c by (simp only: mult_le_cancel_right_pos)
  then show "2 ^ 52 \<le> x / 2 powi (ilog2 x - 52)"
    unfolding l_def[symmetric] d e by (simp add: c_def)
  have "x / 2 powi l < 2" using hi p unfolding s by (simp add: divide_less_eq mult.commute)
  then have "(x / 2 powi l) * c < 2 * c" using c by (simp only: mult_less_cancel_right_pos)
  then show "x / 2 powi (ilog2 x - 52) < 2 ^ 53"
    unfolding l_def[symmetric] d e c2 .
qed

lemma round_half_even_ge:
  assumes "of_int n \<le> x" shows "n \<le> round_half_even x"
  using round_half_even_mono[OF assms] by simp

lemma round_half_even_le:
  assumes "x \<le> of_int n" shows "round_half_even x \<le> n"
  using round_half_even_mono[OF assms] by simp

lemma fl_pos_bounds:
  assumes "0 < x"
  shows "2 powi (ilog2 x) \<le> fl x" and "fl x \<le> 2 powi (ilog2 x + 1)"
proof -
  define e where "e = ilog2 x - 52"
  define t where "t = x / 2 powi e"
  define r where "r = round_half_even t"
  have t: "2 ^ 52 \<le> t" "t < 2 ^ 53"
    unfolding t_def e_def using scaled_bounds[OF assms] by simp_all
  have "real_of_int (2 ^ 52) \<le> t" using t(1) by simp
  then have "2 ^ 52 \<le> r" unfolding r_def by (rule round_half_even_ge)
  then have r1: "(2::real) ^ 52 \<le> of_int r" by (simp only: numeral_power_le_of_int_cancel_iff)
  have "t \<le> real_of_int (2 ^ 53)" using t(2) by simp
  then have "r \<le> 2 ^ 53" unfolding r_def by (rule round_half_even_le)
  then have r2: "of_int r \<le> (2::real) ^ 53" by (simp only: of_int_le_numeral_power_cancel_iff)
  have f: "fl x = of_int r * 2 powi e"
    using assms by (simp add: fl_pos_eq round_at_def r_def t_def e_def)
  have p: "(0::real) < 2 powi e" by simp
  have a: "(2::real) powi (ilog2 x) = 2 ^ 52 * 2 powi e"
    unfolding e_def by (simp add: power_int_diff)
  have b: "(2::real) powi (ilog2 x + 1) = 2 ^ 53 * 2 powi e"
    unfolding e_def by (simp add: power_int_diff power_int_add)
  show "2 powi (ilog2 x) \<le> fl x" unfolding f a using r1 p by (simp only: mult_le_cancel_right_pos)
  show "fl x \<le> 2 powi (ilog2 x + 1)" unfolding f b using r2 p by (simp only: mult_le_cancel_right_pos)
qed

lemma fl_pos: "0 < x \<Longrightarrow> 0 < fl x"
  using fl_pos_bounds(1)[of x] zero_less_power_int[of "2::real" "ilog2 x"] by linarith

lemma fl_nonneg: "0 \<le> x \<Longrightarrow> 0 \<le> fl x"
  using fl_pos[of x] by (cases "x = 0") auto

lemma fl_neg: "x < 0 \<Longrightarrow> fl x < 0"
  using fl_pos[of "- x"] by (simp add: fl_minus)

lemma fl_eq_0_iff [simp]: "fl x = 0 \<longleftrightarrow> x = 0"
  using fl_pos[of x] fl_neg[of x] by (cases "x = 0"; cases "0 < x") auto

lemma fl_mono_pos:
  assumes "0 < x" "x \<le> y" shows "fl x \<le> fl y"
proof -
  have y: "0 < y" using assms by simp
  have le: "ilog2 x \<le> ilog2 y" using assms by (rule ilog2_mono)
  show ?thesis
  proof (cases "ilog2 x = ilog2 y")
    case True
    define e where "e = ilog2 y - 52"
    have p: "(0::real) < 2 powi e" by simp
    have "x / 2 powi e \<le> y / 2 powi e" using assms(2) p by (simp add: divide_right_mono)
    then have "round_half_even (x / 2 powi e) \<le> round_half_even (y / 2 powi e)"
      by (rule round_half_even_mono)
    then have "real_of_int (round_half_even (x / 2 powi e)) \<le> of_int (round_half_even (y / 2 powi e))"
      by (simp only: of_int_le_iff)
    then have "round_at e x \<le> round_at e y"
      unfolding round_at_def using p by (simp only: mult_le_cancel_right_pos)
    then show ?thesis using assms(1) y True by (simp add: fl_pos_eq e_def)
  next
    case False
    with le have "ilog2 x + 1 \<le> ilog2 y" by simp
    then have "(2::real) powi (ilog2 x + 1) \<le> 2 powi (ilog2 y)"
      by (intro power_int_increasing) simp_all
    with fl_pos_bounds(2)[OF assms(1)] fl_pos_bounds(1)[OF y] show ?thesis by linarith
  qed
qed

lemma fl_mono:
  assumes "x \<le> y" shows "fl x \<le> fl y"
proof -
  consider "0 < x" | "x \<le> 0" "0 \<le> y" | "y < 0" using assms by linarith
  then show ?thesis
  proof cases
    case 1 then show ?thesis using assms by (rule fl_mono_pos)
  next
    case 2
    have "fl x \<le> 0" using 2(1) fl_nonneg[of "- x"] by (simp add: fl_minus)
    moreover have "0 \<le> fl y" using 2(2) by (rule fl_nonneg)
    ultimately show ?thesis by simp
  next
    case 3
    have "fl (- y) \<le> fl (- x)" using 3 assms by (intro fl_mono_pos) simp_all
    then show ?thesis by (simp add: fl_minus)
  qed
qed

text \<open>Numbers with at most 53 significant bits are floats: rounding leaves them alone.\<close>

lemma fl_exact_pos:
  assumes "0 < m" "m < 2 ^ 53"
  shows "fl (of_int m * 2 powi e) = of_int m * 2 powi e"
proof -
  define x where "x = real_of_int m * 2 powi e"
  have p: "(0::real) < 2 powi e" by simp
  have x: "0 < x" unfolding x_def using assms(1) p by simp
  have "real_of_int m < 2 ^ 53" using assms(2) by (simp only: of_int_less_numeral_power_cancel_iff)
  then have "x < 2 ^ 53 * 2 powi e" unfolding x_def using p by (simp only: mult_less_cancel_right_pos)
  also have "\<dots> = 2 powi (e + 53)" by (simp add: power_int_add)
  finally have xb: "x < 2 powi (e + 53)" .
  define e' where "e' = ilog2 x - 52"
  have "2 powi (ilog2 x) \<le> x" using ilog2_bounds(1)[OF x] .
  with xb have "(2::real) powi (ilog2 x) < 2 powi (e + 53)" by linarith
  then have "ilog2 x < e + 53" by (rule powi2_less_imp)
  then have k0: "0 \<le> e - e'" unfolding e'_def by simp
  define k where "k = nat (e - e')"
  have "e = e' + int k" unfolding k_def using k0 by simp
  then have pe: "(2::real) powi e = 2 powi e' * 2 ^ k"
    by (simp add: power_int_add)
  have "x / 2 powi e' = of_int (m * 2 ^ k)" unfolding x_def pe by simp
  then have "round_half_even (x / 2 powi e') = m * 2 ^ k" by (simp only: round_half_even_of_int)
  then have "round_at e' x = x" unfolding round_at_def x_def pe by simp
  then show ?thesis using x unfolding x_def[symmetric] by (simp add: fl_pos_eq e'_def)
qed

lemma fl_exact:
  assumes "\<bar>m\<bar> < 2 ^ 53"
  shows "fl (of_int m * 2 powi e) = of_int m * 2 powi e"
proof -
  consider "0 < m" | "m = 0" | "m < 0" by linarith
  then show ?thesis
  proof cases
    case 1 with assms show ?thesis by (intro fl_exact_pos) simp_all
  next
    case 2 then show ?thesis by simp
  next
    case 3
    with assms have "fl (of_int (- m) * 2 powi e) = of_int (- m) * 2 powi e"
      by (intro fl_exact_pos) simp_all
    then have "fl (- (of_int m * 2 powi e)) = - (of_int m * 2 powi e)" by simp
    then show ?thesis by (simp only: fl_minus neg_equal_iff_equal)
  qed
qed

lemma fl_of_int:
  assumes "\<bar>n\<bar> < 2 ^ 53" shows "fl (of_int n) = of_int n"
  using fl_exact[OF assms, of 0] by simp

lemma fl_powi2: "fl (2 powi e) = 2 powi e"
  using fl_exact[of 1 e] by simp

text \<open>A rounded number is a float, so rounding is idempotent.\<close>

lemma fl_is_float: "\<exists>m e. \<bar>m\<bar> < 2 ^ 53 \<and> fl x = of_int m * 2 powi e"
proof -
  have pos: "\<exists>m e. \<bar>m\<bar> < 2 ^ 53 \<and> fl x = of_int m * 2 powi e" if "0 < x" for x
  proof -
    define e where "e = ilog2 x - 52"
    define r where "r = round_half_even (x / 2 powi e)"
    have f: "fl x = of_int r * 2 powi e"
      using that by (simp add: fl_pos_eq round_at_def r_def e_def)
    have "x / 2 powi e \<le> real_of_int (2 ^ 53)"
      using scaled_bounds(2)[OF that] unfolding e_def by simp
    then have r2: "r \<le> 2 ^ 53" unfolding r_def by (rule round_half_even_le)
    have "real_of_int (2 ^ 52) \<le> x / 2 powi e"
      using scaled_bounds(1)[OF that] unfolding e_def by simp
    then have "2 ^ 52 \<le> r" unfolding r_def by (rule round_half_even_ge)
    then have r1: "0 < r" by simp
    show ?thesis
    proof (cases "r = 2 ^ 53")
      case True
      then have "fl x = of_int 1 * 2 powi (e + 53)" unfolding f by (simp add: power_int_add)
      moreover have "\<bar>1::int\<bar> < 2 ^ 53" by simp
      ultimately show ?thesis by blast
    next
      case False
      with r1 r2 have "\<bar>r\<bar> < 2 ^ 53" by simp
      with f show ?thesis by blast
    qed
  qed
  consider "0 < x" | "x = 0" | "x < 0" by linarith
  then show ?thesis
  proof cases
    case 1 then show ?thesis by (rule pos)
  next
    case 2
    have "\<bar>0::int\<bar> < 2 ^ 53 \<and> fl x = of_int 0 * 2 powi 0" using 2 by simp
    then show ?thesis by blast
  next
    case 3
    then obtain m e where me: "\<bar>m\<bar> < 2 ^ 53" "fl (- x) = of_int m * 2 powi e"
      using pos[of "- x"] by auto
    then have "\<bar>- m\<bar> < 2 ^ 53 \<and> fl x = of_int (- m) * 2 powi e" by (simp add: fl_minus)
    then show ?thesis by blast
  qed
qed

lemma fl_idem [simp]: "fl (fl x) = fl x"
proof -
  obtain m e where "\<bar>m\<bar> < 2 ^ 53" "fl x = of_int m * 2 powi e"
    using fl_is_float by blast
  then show ?thesis using fl_exact[of m e] by simp
qed

text \<open>Rounding an integer gives an integer.\<close>

lemma fl_int:
  assumes "x \<in> \<int>" shows "fl x \<in> \<int>"
proof -
  from assms obtain n where n: "x = of_int n" by (auto elim: Ints_cases)
  show ?thesis
  proof (cases "\<bar>n\<bar> < 2 ^ 53")
    case True
    then show ?thesis unfolding n by (simp add: fl_of_int)
  next
    case False
    have pos: "fl (of_int k) \<in> \<int>" if "2 ^ 53 \<le> k" for k :: int
    proof -
      have "(0::int) < 2 ^ 53" by simp
      with that have "0 < k" by linarith
      then have k: "0 < real_of_int k" by simp
      have "real_of_int (2 ^ 53) \<le> of_int k" using that by (simp only: of_int_le_iff)
      then have "(2::real) powi 53 \<le> of_int k" by simp
      also have "\<dots> < 2 powi (ilog2 (of_int k) + 1)" using ilog2_bounds(2)[OF k] .
      finally have "53 < ilog2 (real_of_int k) + 1" by (rule powi2_less_imp)
      then have e: "0 \<le> ilog2 (real_of_int k) - 52" by simp
      define j where "j = nat (ilog2 (real_of_int k) - 52)"
      have "(2::real) powi (ilog2 (real_of_int k) - 52) = 2 ^ j"
        unfolding j_def using e by (simp add: power_int_nonneg_exp)
      then have "fl (of_int k) = of_int (round_half_even (of_int k / 2 ^ j) * 2 ^ j)"
        using k by (simp add: fl_pos_eq round_at_def)
      then show ?thesis by (simp only: Ints_of_int)
    qed
    consider "2 ^ 53 \<le> n" | "2 ^ 53 \<le> - n" using False by linarith
    then show ?thesis
    proof cases
      case 1 then show ?thesis unfolding n by (rule pos)
    next
      case 2
      then have "fl (of_int (- n)) \<in> \<int>" by (rule pos)
      then have "- fl (of_int n) \<in> \<int>" by (simp add: fl_minus)
      then show ?thesis unfolding n by (simp only: minus_in_Ints_iff)
    qed
  qed
qed

subsection \<open>Rounding to two decimals\<close>

lemma round2_mono: "x \<le> y \<Longrightarrow> round2 x \<le> round2 y"
  unfolding round2_def
  by (intro fl_mono divide_right_mono) (simp_all add: round_half_even_mono)

lemma round_half_even_zero [simp]: "round_half_even 0 = 0"
  using round_half_even_of_int[of 0] by simp

lemma round2_zero [simp]: "round2 0 = 0"
  by (simp add: round2_def)

lemma round2_nonneg: "0 \<le> x \<Longrightarrow> 0 \<le> round2 x"
  using round2_mono[of 0 x] by simp

lemma round2_minus: "round2 (- x) = - round2 x"
  by (simp add: round2_def round_half_even_minus fl_minus)

lemma round2_int:
  assumes "x \<in> \<int>" "fl x = x" shows "round2 x = x"
proof -
  from assms(1) obtain n where n: "x = of_int n" by (auto elim: Ints_cases)
  have "x * 100 = of_int (n * 100)" unfolding n by simp
  then have "round_half_even (x * 100) = n * 100" by (simp only: round_half_even_of_int)
  then show ?thesis unfolding round2_def using assms(2) n by simp
qed

lemma float_of_int_exact: "\<bar>n\<bar> < 2 ^ 53 \<Longrightarrow> float_of_int n = of_int n"
  unfolding float_of_int_def by (rule fl_of_int)

lemma float_of_int_int: "float_of_int n \<in> \<int>"
  unfolding float_of_int_def by (intro fl_int) simp

lemma float_of_int_mono: "m \<le> n \<Longrightarrow> float_of_int m \<le> float_of_int n"
  unfolding float_of_int_def by (intro fl_mono) simp

subsection \<open>String matching\<close>

lemma matches_ignoring_case_iff: "matches_ignoring_case word name \<longleftrightarrow> sublist word (lower name)"
proof
  assume "matches_ignoring_case word name"
  then obtain ps u ss where "name = ps @ u @ ss" "lower u = word"
    unfolding matches_ignoring_case_def by blast
  then have "lower name = lower ps @ word @ lower ss" by (simp add: lower_def)
  then show "sublist word (lower name)" unfolding sublist_def by blast
next
  assume "sublist word (lower name)"
  then obtain ps ss where e: "map lower_char name = ps @ word @ ss"
    unfolding sublist_def lower_def by blast
  then obtain ps' r where 1: "name = ps' @ r" "ps = map lower_char ps'" "word @ ss = map lower_char r"
    unfolding map_eq_append_conv by blast
  from 1(3)[symmetric] obtain u ss' where 2: "r = u @ ss'" "word = map lower_char u" "ss = map lower_char ss'"
    unfolding map_eq_append_conv by blast
  from 1 2 have "name = ps' @ u @ ss' \<and> lower u = word" by (simp add: lower_def)
  then show "matches_ignoring_case word name" unfolding matches_ignoring_case_def by blast
qed

lemma spec_branch_code:
  "spec_branch name =
     (if sublist ''paint'' (lower name) then Painting
      else if sublist ''tile'' (lower name) then Tiles
      else if sublist ''plumb'' (lower name) then Plumbing
      else Generic)"
  by (simp add: spec_branch_def matches_ignoring_case_iff)

subsection \<open>Plumbing\<close>

lemma plumbing_raw_int: "fadd 500 (fmul (float_of_int n) 300) \<in> \<int>"
  unfolding fadd_def fmul_def using float_of_int_int[of n]
  by (intro fl_int Ints_add Ints_mult) simp_all

lemma round2_plumbing_raw:
  "round2 (fadd 500 (fmul (float_of_int n) 300)) = fadd 500 (fmul (float_of_int n) 300)"
  by (intro round2_int plumbing_raw_int) (simp add: fadd_def)

lemma plumbing_estimate_default_pos:
  assumes "1 \<le> n"
  shows "plumbing_estimate_default n = fadd 500 (fmul (float_of_int n) 300)"
proof -
  have "round2 (fadd 500 (fmul (float_of_int n) 300)) = fadd 500 (fmul (float_of_int n) 300)"
    by (intro round2_int plumbing_raw_int) (simp add: fadd_def)
  with assms show ?thesis
    by (simp add: plumbing_estimate_default_def plumbing_estimate_def)
qed

lemma plumbing_round2_again:
  "round2 (plumbing_estimate_default n) = plumbing_estimate_default n"
proof (cases "1 \<le> n")
  case True
  then show ?thesis
    unfolding plumbing_estimate_default_pos[OF True]
    by (intro round2_int plumbing_raw_int) (simp add: fadd_def)
next
  case False
  then show ?thesis by (simp add: plumbing_estimate_default_def plumbing_estimate_def)
qed


lemma plumbing_exact:
  assumes "1 \<le> n" "n \<le> 30023997515801"
  shows "plumbing_estimate_default n = 500 + 300 * of_int n"
proof -
  have 1: "float_of_int n = of_int n" using assms by (intro float_of_int_exact) simp
  have "fl (of_int (n * 300)) = of_int (n * 300)" using assms by (intro fl_of_int) simp
  then have 2: "fmul (of_int n) 300 = of_int n * 300" by (simp add: fmul_def)
  have "fl (of_int (500 + n * 300)) = of_int (500 + n * 300)" using assms by (intro fl_of_int) simp
  then have 3: "fadd 500 (of_int n * 300) = 500 + of_int n * 300" by (simp add: fadd_def)
  show ?thesis unfolding plumbing_estimate_default_pos[OF assms(1)] 1 2 3 by simp
qed

subsection \<open>The branches of quote generation\<close>

lemma float_of_int_50 [simp]: "float_of_int 50 = 50"
  using float_of_int_exact[of 50] by simp

lemma float_of_int_80 [simp]: "float_of_int 80 = 80"
  using float_of_int_exact[of 80] by simp

lemma float_of_int_150 [simp]: "float_of_int 150 = 150"
  using float_of_int_exact[of 150] by simp

lemma paint_estimate_default_Inr: "\<exists>l c. paint_estimate_default a = Inr (l, c)"
  by (simp add: paint_estimate_default_def paint_estimate_def Let_def)

lemma pos_or_one: "(if (pts::int) > 0 then pts else 1) = max pts 1"
  by simp

lemma price_paint:
  assumes "sublist ''paint'' s" "paint_estimate_default a = Inr (l, c)"
  shows "price svc s a pts =
           Inr \<lparr>p_total = fadd c (generic_labour_default a),
                p_breakdown = [Title ''Painting'', Paint_material l c, Labour (generic_labour_default a)],
                p_material_qty = no_qty\<lparr>paint_litres := Some l\<rparr>\<rparr>"
  using assms by (simp add: price_def Let_def)

lemma price_tiles:
  assumes "\<not> sublist ''paint'' s" "sublist ''tile'' s"
  shows "price svc s a pts =
           Inr \<lparr>p_total = fadd (snd (tiles_estimate_default a)) (generic_labour a 50),
                p_breakdown = [Title ''Tiling'',
                               Tiles_material (fst (tiles_estimate_default a)) (snd (tiles_estimate_default a)),
                               Labour (generic_labour a 50)],
                p_material_qty = no_qty\<lparr>tiles_m2 := Some (fst (tiles_estimate_default a))\<rparr>\<rparr>"
  using assms by (simp add: price_def Let_def split: prod.splits)

lemma price_plumb:
  assumes "\<not> sublist ''paint'' s" "\<not> sublist ''tile'' s" "sublist ''plumb'' s"
  shows "price svc s a pts =
           Inr \<lparr>p_total = plumbing_estimate_default (max pts 1),
                p_breakdown = [Title ''Plumbing'', Points (max pts 1),
                               Total (plumbing_estimate_default (max pts 1))],
                p_material_qty = no_qty\<lparr>plumbing_points := Some (max pts 1)\<rparr>\<rparr>"
  using assms by (simp add: price_def Let_def pos_or_one)

lemma price_generic:
  assumes "\<not> sublist ''paint'' s" "\<not> sublist ''tile'' s" "\<not> sublist ''plumb'' s"
  shows "price svc s a pts =
           Inr \<lparr>p_total = fadd (generic_labour a 80) (fmul a 150),
                p_breakdown = [Title svc, Material_est (fmul a 150), Labour (generic_labour a 80)],
                p_material_qty = no_qty\<lparr>generic_area := Some a\<rparr>\<rparr>"
  using assms by (simp add: price_def Let_def)

lemma generate_estimate_priced:
  assumes "price (if svc_text rq = [] \<or> svc_text rq = ''Select Service''
                  then ''Painting'' else svc_text rq)
                 (lower (if svc_text rq = [] \<or> svc_text rq = ''Select Service''
                         then ''Painting'' else svc_text rq))
                 (area_in rq) (points_in rq) = Inr p"
  shows "generate_estimate rq =
           Inr \<lparr>service = (if svc_text rq = [] \<or> svc_text rq = ''Select Service''
                           then ''Painting'' else svc_text rq),
                area = area_in rq, points = points_in rq,
                total = round2 (p_total p),
                breakdown = p_breakdown p,
                image = current_image rq,
                mat_text = (case mat_pred rq of
                              Some v \<Rightarrow> ML_material v
                            | None \<Rightarrow> suggest
                                (lower (if svc_text rq = [] \<or> svc_text rq = ''Select Service''
                                        then ''Painting'' else svc_text rq))
                                (p_material_qty p)),
                est_total = p_total p,
                ml_text = ml_pred rq\<rparr>"
  unfolding generate_estimate_def Let_def assms by simp

lemma generate_estimate_cases [case_names paint tiles plumb generic]:
  fixes rq :: request
  defines "svc \<equiv> (if svc_text rq = [] \<or> svc_text rq = ''Select Service''
                     then ''Painting'' else svc_text rq)"
  defines "a \<equiv> area_in rq" and "pts \<equiv> points_in rq"
  defines "shown \<equiv> (\<lambda>mq. case mat_pred rq of
                              Some v \<Rightarrow> ML_material v
                            | None \<Rightarrow> suggest (lower svc) mq)"
  obtains
    l c where "spec_branch svc = Painting" "sublist ''paint'' (lower svc)"
      "paint_estimate_default a = Inr (l, c)"
      "generate_estimate rq =
         Inr \<lparr>service = svc, area = a, points = pts,
              total = round2 (fadd c (generic_labour_default a)),
              breakdown = [Title ''Painting'', Paint_material l c, Labour (generic_labour_default a)],
              image = current_image rq,
              mat_text = shown (no_qty\<lparr>paint_litres := Some l\<rparr>),
              est_total = fadd c (generic_labour_default a),
              ml_text = ml_pred rq\<rparr>"
  | "spec_branch svc = Tiles" "\<not> sublist ''paint'' (lower svc)" "sublist ''tile'' (lower svc)"
      "generate_estimate rq =
         Inr \<lparr>service = svc, area = a, points = pts,
              total = round2 (fadd (snd (tiles_estimate_default a)) (generic_labour a 50)),
              breakdown = [Title ''Tiling'',
                           Tiles_material (fst (tiles_estimate_default a)) (snd (tiles_estimate_default a)),
                           Labour (generic_labour a 50)],
              image = current_image rq,
              mat_text = shown (no_qty\<lparr>tiles_m2 := Some (fst (tiles_estimate_default a))\<rparr>),
              est_total = fadd (snd (tiles_estimate_default a)) (generic_labour a 50),
              ml_text = ml_pred rq\<rparr>"
  | "spec_branch svc = Plumbing" "\<not> sublist ''paint'' (lower svc)" "\<not> sublist ''tile'' (lower svc)"
      "sublist ''plumb'' (lower svc)"
      "generate_estimate rq =
         Inr \<lparr>service = svc, area = a, points = pts,
              total = round2 (plumbing_estimate_default (max pts 1)),
              breakdown = [Title ''Plumbing'', Points (max pts 1),
                           Total (plumbing_estimate_default (max pts 1))],
              image = current_image rq,
              mat_text = shown (no_qty\<lparr>plumbing_points := Some (max pts 1)\<rparr>),
              est_total = plumbing_estimate_default (max pts 1),
              ml_text = ml_pred rq\<rparr>"
  | "spec_branch svc = Generic" "\<not> sublist ''paint'' (lower svc)" "\<not> sublist ''tile'' (lower svc)"
      "\<not> sublist ''plumb'' (lower svc)"
      "generate_estimate rq =
         Inr \<lparr>service = svc, area = a, points = pts,
              total = round2 (fadd (generic_labour a 80) (fmul a 150)),
              breakdown = [Title svc, Material_est (fmul a 150), Labour (generic_labour a 80)],
              image = current_image rq,
              mat_text = shown (no_qty\<lparr>generic_area := Some a\<rparr>),
              est_total = fadd (generic_labour a 80) (fmul a 150),
              ml_text = ml_pred rq\<rparr>"
proof -
  obtain l c where p: "paint_estimate_default a = Inr (l, c)"
    using paint_estimate_default_Inr by blast
  note ge = generate_estimate_priced[of rq, unfolded svc_def[symmetric] a_def[symmetric] pts_def[symmetric]]
  consider (paint) "sublist ''paint'' (lower svc)"
    | (tiles) "\<not> sublist ''paint'' (lower svc)" "sublist ''tile'' (lower svc)"
    | (plumb) "\<not> sublist ''paint'' (lower svc)" "\<not> sublist ''tile'' (lower svc)"
              "sublist ''plumb'' (lower svc)"
    | (generic) "\<not> sublist ''paint'' (lower svc)" "\<not> sublist ''tile'' (lower svc)"
                "\<not> sublist ''plumb'' (lower svc)"
    by blast
  then show thesis
  proof cases
    case paint
    have sb: "spec_branch svc = Painting" using paint by (simp add: spec_branch_code)
    show thesis
      by (rule that(1)[OF sb paint p]) (simp add: ge[OF price_paint[OF paint p]] shown_def split: option.splits)
  next
    case tiles
    have sb: "spec_branch svc = Tiles" using tiles by (simp add: spec_branch_code)
    show thesis
      by (rule that(2)[OF sb tiles]) (simp add: ge[OF price_tiles[OF tiles]] shown_def split: option.splits)
  next
    case plumb
    have sb: "spec_branch svc = Plumbing" using plumb by (simp add: spec_branch_code)
    show thesis
      by (rule that(3)[OF sb plumb]) (simp add: ge[OF price_plumb[OF plumb]] shown_def split: option.splits)
  next
    case generic
    have sb: "spec_branch svc = Generic" using generic by (simp add: spec_branch_code)
    show thesis
      by (rule that(4)[OF sb generic]) (simp add: ge[OF price_generic[OF generic]] shown_def split: option.splits)
  qed
qed

lemma generate_estimate_service:
  assumes "generate_estimate rq = Inr q"
  shows "service q = (if svc_text rq = [] \<or> svc_text rq = ''Select Service''
                      then ''Painting'' else svc_text rq)"
    and "area q = area_in rq" and "points q = points_in rq"
  using assms by (cases rq rule: generate_estimate_cases; auto)+

subsection \<open>Monotonicity\<close>

lemma fmul_mono: "0 \<le> c \<Longrightarrow> x \<le> y \<Longrightarrow> fmul x c \<le> fmul y c"
  unfolding fmul_def by (intro fl_mono mult_right_mono)

lemma fdiv_mono: "0 \<le> c \<Longrightarrow> x \<le> y \<Longrightarrow> fdiv x c \<le> fdiv y c"
  unfolding fdiv_def by (intro fl_mono divide_right_mono)

lemma fadd_mono: "x \<le> y \<Longrightarrow> fadd c x \<le> fadd c y"
  unfolding fadd_def by (intro fl_mono) simp

lemma fmul_nonneg: "0 \<le> x \<Longrightarrow> 0 \<le> c \<Longrightarrow> 0 \<le> fmul x c"
  unfolding fmul_def by (intro fl_nonneg mult_nonneg_nonneg)

lemma fdiv_nonneg: "0 \<le> x \<Longrightarrow> 0 \<le> c \<Longrightarrow> 0 \<le> fdiv x c"
  unfolding fdiv_def by (intro fl_nonneg divide_nonneg_nonneg)

lemma one_plus_wastage_nonneg: "0 \<le> w \<Longrightarrow> 0 \<le> fadd 1 (fl w)"
  unfolding fadd_def by (intro fl_nonneg add_nonneg_nonneg fl_nonneg) simp_all

lemma float_of_int_2 [simp]: "float_of_int 2 = 2"
  using float_of_int_exact[of 2] by simp

lemma paint_litres_raw_mono: "x \<le> y \<Longrightarrow> paint_litres_raw x \<le> paint_litres_raw y"
  unfolding paint_litres_raw_def
  by (intro fmul_mono fdiv_mono one_plus_wastage_nonneg) simp_all

lemma paint_litres_raw_nonneg: "0 \<le> x \<Longrightarrow> 0 \<le> paint_litres_raw x"
  unfolding paint_litres_raw_def
  by (intro fmul_nonneg fdiv_nonneg one_plus_wastage_nonneg) simp_all

lemma paint_estimate_default_eq:
  "paint_estimate_default a =
     (if a \<le> 0 then Inr (0, 0)
      else Inr (round2 (paint_litres_raw a), round2 (fmul (paint_litres_raw a) 250)))"
  by (simp add: paint_estimate_default_def paint_estimate_def paint_litres_raw_def Let_def)

lemma paint_estimate_default_mono:
  assumes "a1 \<le> a2"
  shows "\<exists>l1 c1 l2 c2. paint_estimate_default a1 = Inr (l1, c1) \<and>
           paint_estimate_default a2 = Inr (l2, c2) \<and> l1 \<le> l2 \<and> c1 \<le> c2"
proof (cases "a1 \<le> 0")
  case True
  show ?thesis
  proof (cases "a2 \<le> 0")
    case True
    with \<open>a1 \<le> 0\<close> show ?thesis by (simp add: paint_estimate_default_eq)
  next
    case False
    then have "0 \<le> paint_litres_raw a2" by (intro paint_litres_raw_nonneg) simp
    then have "0 \<le> round2 (paint_litres_raw a2)" "0 \<le> round2 (fmul (paint_litres_raw a2) 250)"
      by (auto intro!: round2_nonneg fmul_nonneg)
    with True False show ?thesis by (simp add: paint_estimate_default_eq)
  qed
next
  case False
  with assms have a2: "\<not> a2 \<le> 0" by simp
  have "paint_litres_raw a1 \<le> paint_litres_raw a2" using assms by (rule paint_litres_raw_mono)
  then have "round2 (paint_litres_raw a1) \<le> round2 (paint_litres_raw a2)"
    "round2 (fmul (paint_litres_raw a1) 250) \<le> round2 (fmul (paint_litres_raw a2) 250)"
    by (auto intro!: round2_mono fmul_mono)
  with False a2 show ?thesis by (simp add: paint_estimate_default_eq)
qed

lemma tiles_estimate_default_eq:
  "tiles_estimate_default a =
     (if a \<le> 0 then (0, 0)
      else (round2 (tiles_qty_raw a), round2 (fmul (tiles_qty_raw a) 600)))"
  by (simp add: tiles_estimate_default_def tiles_estimate_def tiles_qty_raw_def Let_def)

lemma tiles_qty_raw_mono: "x \<le> y \<Longrightarrow> tiles_qty_raw x \<le> tiles_qty_raw y"
  unfolding tiles_qty_raw_def by (intro fmul_mono one_plus_wastage_nonneg) simp_all

lemma tiles_qty_raw_nonneg: "0 \<le> x \<Longrightarrow> 0 \<le> tiles_qty_raw x"
  unfolding tiles_qty_raw_def by (intro fmul_nonneg one_plus_wastage_nonneg) simp_all

lemma tiles_estimate_default_mono:
  assumes "a1 \<le> a2"
  shows "fst (tiles_estimate_default a1) \<le> fst (tiles_estimate_default a2) \<and>
         snd (tiles_estimate_default a1) \<le> snd (tiles_estimate_default a2)"
proof (cases "a1 \<le> 0")
  case True
  show ?thesis
  proof (cases "a2 \<le> 0")
    case True
    with \<open>a1 \<le> 0\<close> show ?thesis by (simp add: tiles_estimate_default_eq)
  next
    case False
    then have "0 \<le> tiles_qty_raw a2" by (intro tiles_qty_raw_nonneg) simp
    then have "0 \<le> round2 (tiles_qty_raw a2)" "0 \<le> round2 (fmul (tiles_qty_raw a2) 600)"
      by (auto intro!: round2_nonneg fmul_nonneg)
    with True False show ?thesis by (simp add: tiles_estimate_default_eq)
  qed
next
  case False
  with assms have a2: "\<not> a2 \<le> 0" by simp
  have "tiles_qty_raw a1 \<le> tiles_qty_raw a2" using assms by (rule tiles_qty_raw_mono)
  then have "round2 (tiles_qty_raw a1) \<le> round2 (tiles_qty_raw a2)"
    "round2 (fmul (tiles_qty_raw a1) 600) \<le> round2 (fmul (tiles_qty_raw a2) 600)"
    by (auto intro!: round2_mono fmul_mono)
  with False a2 show ?thesis by (simp add: tiles_estimate_default_eq)
qed

lemma plumbing_estimate_default_mono:
  assumes "1 \<le> n" "n \<le> m"
  shows "plumbing_estimate_default n \<le> plumbing_estimate_default m"
proof -
  have m: "1 \<le> m" using assms by simp
  show ?thesis
    unfolding plumbing_estimate_default_pos[OF assms(1)] plumbing_estimate_default_pos[OF m]
    by (intro fadd_mono fmul_mono float_of_int_mono assms) simp
qed

subsection \<open>Tile boxes on two inputs\<close>

lemma tile_boxes_42: "tile_boxes 42 = 36"
  unfolding tile_boxes_def box_cover_def float_floordiv_def float_mod_def Let_def
  by (simp add: float_eval)

lemma tile_boxes_52_5: "tile_boxes (525/10) = 44"
  unfolding tile_boxes_def box_cover_def float_floordiv_def float_mod_def Let_def
  by (simp add: float_eval)

lemma tiles_suggestion_42: "tiles_suggestion 42 = Tiles_purchase 36 (fl (432/10)) 42"
  unfolding tiles_suggestion_def Let_def tile_boxes_42 box_cover_def
  by (simp add: float_eval)

lemma tiles_suggestion_52_5: "tiles_suggestion (525/10) = Tiles_purchase 44 (fl (528/10)) (525/10)"
  unfolding tiles_suggestion_def Let_def tile_boxes_52_5 box_cover_def
  by (simp add: float_eval)

lemma tiles_estimate_default_40: "tiles_estimate_default 40 = (42, 25200)"
  unfolding tiles_estimate_default_def tiles_estimate_def Let_def
  by (simp add: float_eval)

lemma ceiling_42_by_box: "\<lceil>(42::real) / (12/10)\<rceil> = 35" "\<lceil>fdiv 42 (fl (12/10))\<rceil> = 35"
  by (simp_all add: float_eval)

subsection \<open>The loop over the can sizes\<close>

lemma can_labels:
  "str_int (py_int 10) @ ''L'' = ''10L''"
  "str_int (py_int 4) @ ''L'' = ''4L''"
  "str_int (py_int 1) @ ''L'' = ''1L''"
  by (simp_all add: py_int_def str_int_def str_nat.simps digit_char_def)

lemma pack_cans_unroll:
  "pack_cans [10, 4, 1] litres [] =
     (spec_rest (spec_rest (spec_rest litres 10) 4) 1,
      filter (\<lambda>(k, c). c > 0)
        [(''10L'', spec_count litres 10),
         (''4L'', spec_count (spec_rest litres 10) 4),
         (''1L'', spec_count (spec_rest (spec_rest litres 10) 4) 1)])"
  by (simp add: Let_def can_labels spec_count_def[symmetric] spec_rest_def)

lemma paint_cans_spec: "paint_cans litres = spec_cans litres"
  unfolding paint_cans_def pack_cans_unroll spec_cans_def Let_def
  by (simp add: dict_get_def)

subsection \<open>The rounding error\<close>

lemma fl_error_small:
  assumes "0 \<le> x" "x < 2 ^ 45"
  shows "\<bar>fl x - x\<bar> \<le> 1 / 512"
proof (cases "x = 0")
  case True then show ?thesis by simp
next
  case False
  with assms have x: "0 < x" by simp
  define e where "e = ilog2 x - 52"
  define t where "t = x / 2 powi e"
  define r where "r = round_half_even t"
  define p where "p = (2::real) powi e"
  have p: "0 < p" unfolding p_def by simp
  have "2 powi (ilog2 x) \<le> x" using ilog2_bounds(1)[OF x] .
  also have "x < 2 powi 45" using assms(2) by simp
  finally have "ilog2 x < 45" by (rule powi2_less_imp)
  then have "e \<le> - 8" unfolding e_def by simp
  then have "p \<le> 2 powi (- 8)" unfolding p_def by (intro power_int_increasing) simp_all
  also have "(2::real) powi (- 8) = 1 / 256" using powi2_neg[of 8] by simp
  finally have p8: "p \<le> 1 / 256" .
  have f: "fl x = of_int r * p"
    using x by (simp add: fl_pos_eq round_at_def r_def t_def e_def p_def)
  have xt: "x = t * p" unfolding t_def p_def by simp
  have "t - 1/2 \<le> of_int r" "of_int r \<le> t + 1/2"
    unfolding r_def by (rule round_half_even_lower, rule round_half_even_upper)
  then have "\<bar>of_int r - t\<bar> \<le> 1/2" by linarith
  then have "\<bar>of_int r - t\<bar> * p \<le> 1/2 * p" using p by (simp only: mult_le_cancel_right_pos)
  moreover have "\<bar>fl x - x\<bar> = \<bar>of_int r - t\<bar> * p"
    unfolding f using p by (subst xt) (simp add: abs_mult left_diff_distrib[symmetric])
  ultimately show ?thesis using p8 by linarith
qed

lemma hundredths_error:
  assumes "0 \<le> k" "k < 10 ^ 15"
  shows "\<bar>hundredths k - of_int k / 100\<bar> \<le> 1 / 512"
proof -
  have "real_of_int k < 10 ^ 15" using assms(2) by (simp only: of_int_less_numeral_power_cancel_iff)
  then have "real_of_int k / 100 < 2 ^ 45" by simp
  moreover have "0 \<le> real_of_int k / 100" using assms(1) by simp
  ultimately show ?thesis unfolding hundredths_def by (intro fl_error_small)
qed

lemma hundredths_nonneg: "0 \<le> k \<Longrightarrow> 0 \<le> hundredths k"
  unfolding hundredths_def by (intro fl_nonneg) simp

lemma hundredths_pos_iff: "0 < hundredths k \<longleftrightarrow> 0 < k"
proof
  assume "0 < k"
  then show "0 < hundredths k" unfolding hundredths_def by (intro fl_pos) simp
next
  assume h: "0 < hundredths k"
  show "0 < k"
  proof (rule ccontr)
    assume "\<not> 0 < k"
    then have "real_of_int k / 100 \<le> 0" by simp
    then have "fl (real_of_int k / 100) \<le> fl 0" by (rule fl_mono)
    with h show False unfolding hundredths_def by simp
  qed
qed

lemma hundredths_mono: "k \<le> j \<Longrightarrow> hundredths k \<le> hundredths j"
  unfolding hundredths_def by (intro fl_mono divide_right_mono) simp_all

lemma round2_hundredths: "round2 x = hundredths (round_half_even (x * 100))"
  by (simp add: round2_def hundredths_def)

lemma hundredths_of_whole:
  assumes "\<bar>n\<bar> < 2 ^ 53" shows "hundredths (100 * n) = of_int n"
  unfolding hundredths_def using fl_of_int[OF assms] by simp

subsection \<open>Floor division by a can size\<close>

lemma float_floordiv_exact:
  fixes sz :: int
  assumes "0 \<le> vx" "vx < 2 ^ 53" "0 < sz"
  shows "float_floordiv vx (of_int sz) = of_int \<lfloor>vx / of_int sz\<rfloor>"
proof -
  define c where "c = \<lfloor>vx / of_int sz\<rfloor>"
  define w where "w = real_of_int sz"
  have w: "0 < w" "1 \<le> w" unfolding w_def using assms(3) by simp_all
  have q0: "0 \<le> vx / w" using assms(1) w by simp
  then have c0: "0 \<le> c" unfolding c_def w_def by simp
  have "of_int c \<le> vx / w" unfolding c_def w_def by simp
  then have cw: "w * of_int c \<le> vx" using w by (simp add: le_divide_eq mult.commute)
  have pi: "py_int (vx / w) = c" using q0 unfolding py_int_def c_def w_def by simp
  have rem: "fmod vx w = vx - w * of_int c" unfolding fmod_def pi ..
  have rem0: "0 \<le> vx - w * of_int c" using cw by simp
  have "real_of_int (sz * c) < 2 ^ 53" using cw assms(2) unfolding w_def by simp
  then have szc: "sz * c < 2 ^ 53" by (simp only: of_int_less_numeral_power_cancel_iff)
  moreover have "0 \<le> sz * c" using c0 assms(3) by simp
  ultimately have "fl (of_int (sz * c)) = of_int (sz * c)" by (intro fl_of_int) simp
  then have s1: "fsub vx (vx - w * of_int c) = w * of_int c"
    unfolding fsub_def w_def by simp
  have "c \<le> sz * c" using c0 assms(3) by (simp add: mult_le_cancel_right1)
  with szc c0 have "fl (of_int c) = of_int c" by (intro fl_of_int) simp
  then have s2: "fdiv (w * of_int c) w = of_int c" unfolding fdiv_def using w by simp
  have nadj: "\<not> (vx - w * of_int c \<noteq> 0 \<and> ((w < 0) \<noteq> (vx - w * of_int c < 0)))"
    using w rem0 by simp
  have s3: "fsub (of_int c) (of_int c) = 0" unfolding fsub_def by simp
  have "float_floordiv vx w = of_int c"
    unfolding float_floordiv_def Let_def rem s1 s2 if_not_P[OF nadj]
    by (simp add: s3)
  then show ?thesis unfolding w_def c_def .
qed

lemma floor_hundredths:
  fixes sz :: int
  assumes "0 \<le> k" "k < 10 ^ 15" "0 < sz"
  shows "\<lfloor>hundredths k / of_int sz\<rfloor> = k div (100 * sz)"
    and "of_int (sz * (k div (100 * sz))) \<le> hundredths k"
proof -
  define c where "c = k div (100 * sz)"
  define d where "d = hundredths k"
  define w where "w = real_of_int sz"
  have w: "0 < w" unfolding w_def using assms(3) by simp
  have kq: "k = 100 * sz * c + k mod (100 * sz)" unfolding c_def by simp
  have m: "0 \<le> k mod (100 * sz)" "k mod (100 * sz) < 100 * sz"
    using assms(3) by simp_all
  have c0: "0 \<le> c" unfolding c_def using assms(1,3) by (simp add: pos_imp_zdiv_nonneg_iff)
  have err: "\<bar>d - of_int k / 100\<bar> \<le> 1 / 512"
    unfolding d_def using assms(1,2) by (rule hundredths_error)
  have "100 * (sz * c) \<le> k" using kq m(1) by linarith
  have "k < 100 * (sz * (c + 1))" using kq m(2) by (simp add: algebra_simps)
  then have "k + 1 \<le> 100 * (sz * (c + 1))" by simp
  then have "real_of_int (k + 1) \<le> real_of_int (100 * (sz * (c + 1)))" by (simp only: of_int_le_iff)
  then have "real_of_int k / 100 \<le> w * (of_int c + 1) - 1 / 100"
    unfolding w_def by simp
  with err have up: "d < w * (of_int c + 1)" by linarith
  have "real_of_int (100 * (sz * c)) \<le> real_of_int k"
    using \<open>100 * (sz * c) \<le> k\<close> by (simp only: of_int_le_iff)
  then have "real_of_int (sz * c) \<le> real_of_int k / 100" by simp
  then have "fl (real_of_int (sz * c)) \<le> fl (real_of_int k / 100)" by (rule fl_mono)
  moreover have "fl (real_of_int (sz * c)) = real_of_int (sz * c)"
  proof (intro fl_of_int)
    have n: "0 \<le> sz * c" using c0 assms(3) by simp
    with \<open>100 * (sz * c) \<le> k\<close> have "sz * c \<le> k" by linarith
    with assms(2) have "sz * c < 10 ^ 15" by simp
    with n show "\<bar>sz * c\<bar> < 2 ^ 53" by simp
  qed
  ultimately have lo: "real_of_int (sz * c) \<le> d" unfolding d_def hundredths_def by simp
  then show "of_int (sz * (k div (100 * sz))) \<le> hundredths k" unfolding c_def d_def .
  have "of_int c \<le> d / w" using lo w unfolding w_def by (simp add: le_divide_eq mult.commute)
  moreover have "d / w < of_int c + 1" using up w by (simp add: divide_less_eq mult.commute)
  ultimately have "\<lfloor>d / w\<rfloor> = c" by (intro floor_unique) simp_all
  then show "\<lfloor>hundredths k / of_int sz\<rfloor> = k div (100 * sz)" unfolding c_def d_def w_def .
qed

lemma hundredths_less:
  assumes "0 \<le> k" "k < 10 ^ 15"
  shows "hundredths k < 10 ^ 13 + 1"
proof -
  have "real_of_int k < 10 ^ 15" using assms(2) by (simp only: of_int_less_numeral_power_cancel_iff)
  then have "real_of_int k / 100 < 10 ^ 13" by simp
  with hundredths_error[OF assms] show ?thesis by linarith
qed

lemma spec_count_hundredths:
  fixes sz :: int
  assumes "0 \<le> k" "k < 10 ^ 15" "0 < sz"
  shows "spec_count (hundredths k) (of_int sz) = k div (100 * sz)"
proof -
  have "hundredths k < 2 ^ 53" using hundredths_less[OF assms(1,2)] by simp
  then have "float_floordiv (hundredths k) (of_int sz) = of_int \<lfloor>hundredths k / of_int sz\<rfloor>"
    using assms by (intro float_floordiv_exact hundredths_nonneg)
  then show ?thesis
    unfolding spec_count_def floor_hundredths(1)[OF assms] by (simp add: py_int_def)
qed

lemma spec_rest_hundredths:
  fixes sz :: int
  assumes "0 \<le> k" "k < 10 ^ 15" "0 < sz"
  shows "spec_rest (hundredths k) (of_int sz) = hundredths (k mod (100 * sz))"
proof -
  define c where "c = k div (100 * sz)"
  define d where "d = hundredths k"
  have cnt: "spec_count (hundredths k) (of_int sz) = c"
    unfolding c_def using assms by (rule spec_count_hundredths)
  have c0: "0 \<le> c" unfolding c_def using assms(1,3) by (simp add: pos_imp_zdiv_nonneg_iff)
  have kq: "k mod (100 * sz) = k - 100 * sz * c" unfolding c_def by (simp add: minus_mult_div_eq_mod)
  show ?thesis
  proof (cases "0 < c")
    case False
    with c0 have "c = 0" by simp
    then show ?thesis unfolding spec_rest_def cnt kq by simp
  next
    case True
    have lo: "real_of_int (sz * c) \<le> d"
      unfolding c_def d_def using assms by (rule floor_hundredths(2))
    have "0 \<le> k mod (100 * sz)" using assms(3) by simp
    then have "100 * (sz * c) \<le> k" unfolding kq by simp
    moreover have n: "0 \<le> sz * c" using c0 assms(3) by simp
    ultimately have "sz * c \<le> k" by linarith
    with assms(2) have szc: "sz * c < 10 ^ 15" by simp
    have "c \<le> sz * c" using c0 assms(3) by (simp add: mult_le_cancel_right1)
    with szc c0 have "\<bar>c\<bar> < 2 ^ 53" by simp
    then have f1: "float_of_int c = of_int c" by (rule float_of_int_exact)
    have "fl (real_of_int (sz * c)) = real_of_int (sz * c)"
      using szc n by (intro fl_of_int) simp
    then have f2: "fmul (of_int c) (of_int sz) = real_of_int (sz * c)"
      unfolding fmul_def by (simp add: mult.commute)
    define x where "x = d - real_of_int (sz * c)"
    define y where "y = fl x"
    have x0: "0 \<le> x" unfolding x_def using lo by simp
    have "d < 10 ^ 13 + 1" unfolding d_def using assms(1,2) by (rule hundredths_less)
    moreover have "0 \<le> real_of_int (sz * c)" using n by (simp only: of_int_0_le_iff)
    ultimately have "x < 2 ^ 45" unfolding x_def by simp
    with x0 have e1: "\<bar>y - x\<bar> \<le> 1 / 512" unfolding y_def by (rule fl_error_small)
    have e2: "\<bar>d - of_int k / 100\<bar> \<le> 1 / 512"
      unfolding d_def using assms(1,2) by (rule hundredths_error)
    have "real_of_int (k mod (100 * sz)) = of_int k - 100 * real_of_int (sz * c)"
      unfolding kq by simp
    then have "y * 100 - real_of_int (k mod (100 * sz)) =
               100 * ((y - x) + (d - of_int k / 100))"
      unfolding x_def by simp
    moreover define u v z where "u = y - x" and "v = d - of_int k / 100"
      and "z = y * 100 - real_of_int (k mod (100 * sz))"
    ultimately have "z = 100 * (u + v)" "\<bar>u\<bar> \<le> 1 / 512" "\<bar>v\<bar> \<le> 1 / 512"
      using e1 e2 by simp_all
    then have "z = 100 * (u + v)" "- (1 / 512) \<le> u" "u \<le> 1 / 512" "- (1 / 512) \<le> v" "v \<le> 1 / 512"
      by (simp_all add: abs_le_iff)
    then have "- (1 / 2) < z \<and> z < 1 / 2" by simp
    then have "\<bar>z\<bar> < 1 / 2" by linarith
    then have "\<bar>y * 100 - real_of_int (k mod (100 * sz))\<bar> < 1 / 2" unfolding z_def .
    then have "round_half_even (y * 100) = k mod (100 * sz)" by (rule round_half_even_unique)
    then have "round2 y = hundredths (k mod (100 * sz))" by (simp add: round2_hundredths)
    moreover have "fsub (hundredths k) (fmul (float_of_int c) (of_int sz)) = y"
      unfolding f1 f2 y_def x_def d_def fsub_def ..
    ultimately show ?thesis unfolding spec_rest_def cnt using True by simp
  qed
qed

text \<open>The cans for a number of hundredths of a litre, up to ten to the thirteen litres.\<close>

lemma spec_cans_hundredths:
  assumes "0 \<le> k" "k < 10 ^ 15"
  shows "spec_cans (hundredths k) =
           filter (\<lambda>(l, c). c > 0)
             [(''10L'', k div 1000), (''4L'', k mod 1000 div 400),
              (''1L'', k mod 1000 mod 400 div 100 + (if 0 < k mod 100 then 1 else 0))]"
proof -
  define k1 where "k1 = k mod 1000"
  define k2 where "k2 = k1 mod 400"
  have k1: "0 \<le> k1" "k1 < 10 ^ 15" unfolding k1_def by simp_all
  have k2: "0 \<le> k2" "k2 < 10 ^ 15" unfolding k2_def by simp_all
  have c10: "spec_count (hundredths k) 10 = k div 1000"
    using spec_count_hundredths[OF assms, of 10] by simp
  have r10: "spec_rest (hundredths k) 10 = hundredths k1"
    using spec_rest_hundredths[OF assms, of 10] by (simp add: k1_def)
  have c4: "spec_count (hundredths k1) 4 = k1 div 400"
    using spec_count_hundredths[OF k1, of 4] by simp
  have r4: "spec_rest (hundredths k1) 4 = hundredths k2"
    using spec_rest_hundredths[OF k1, of 4] by (simp add: k2_def)
  have c1: "spec_count (hundredths k2) 1 = k2 div 100"
    using spec_count_hundredths[OF k2, of 1] by simp
  have r1: "spec_rest (hundredths k2) 1 = hundredths (k2 mod 100)"
    using spec_rest_hundredths[OF k2, of 1] by simp
  have m: "k2 mod 100 = k mod 100"
    unfolding k2_def k1_def by (simp add: mod_mod_cancel)
  have n: "0 \<le> k2 div 100" using k2(1) by (simp add: pos_imp_zdiv_nonneg_iff)
  have e: "(if 0 < k2 div 100 then k2 div 100 else 0) = k2 div 100" using n by simp
  have "spec_cans (hundredths k) =
           filter (\<lambda>(l, c). c > 0)
             [(''10L'', k div 1000), (''4L'', k1 div 400),
              (''1L'', k2 div 100 + (if 0 < k mod 100 then 1 else 0))]"
    unfolding spec_cans_def Let_def c10 r10 c4 r4 c1 r1 hundredths_pos_iff m e ..
  then show ?thesis unfolding k2_def k1_def .
qed

lemma capacity_filter:
  assumes "0 \<le> a" "0 \<le> b" "0 \<le> c"
  shows "capacity (filter (\<lambda>(l, n). n > 0) [(''10L'', a), (''4L'', b), (''1L'', c)]) =
           10 * a + 4 * b + c"
  using assms by (simp add: capacity_def dict_get_def)

lemma capacity_hundredths:
  assumes "0 \<le> k" "k < 10 ^ 15"
  shows "capacity (spec_cans (hundredths k)) = k div 100 + (if 0 < k mod 100 then 1 else 0)"
proof -
  have a: "0 \<le> k div 1000" using assms(1) by (simp add: pos_imp_zdiv_nonneg_iff)
  have b: "0 \<le> k mod 1000 div 400" by (simp add: pos_imp_zdiv_nonneg_iff)
  have c: "0 \<le> k mod 1000 mod 400 div 100 + (if 0 < k mod 100 then 1 else 0)"
    by (simp add: pos_imp_zdiv_nonneg_iff)
  define q k1 q1 k2 q2 k3 where "q = k div 1000" and "k1 = k mod 1000" and "q1 = k1 div 400"
    and "k2 = k1 mod 400" and "q2 = k2 div 100" and "k3 = k2 mod 100"
  have "k = 1000 * q + k1" "k1 = 400 * q1 + k2" "k2 = 100 * q2 + k3"
    unfolding q_def k1_def q1_def k2_def q2_def k3_def by simp_all
  then have "k = 100 * (10 * q + 4 * q1 + q2) + k3" by simp
  moreover have "0 \<le> k3" "k3 < 100" unfolding k3_def by simp_all
  ultimately have "k div 100 = 10 * q + 4 * q1 + q2" by (rule int_div_pos_eq)
  then have s: "10 * (k div 1000) + 4 * (k mod 1000 div 400) + k mod 1000 mod 400 div 100 = k div 100"
    unfolding q_def k1_def q1_def k2_def q2_def by simp
  show ?thesis
    unfolding spec_cans_hundredths[OF assms] capacity_filter[OF a b c]
    unfolding s[symmetric] by simp
qed

lemma hundredths_le_capacity:
  assumes "0 \<le> k" "k < 10 ^ 15"
  shows "hundredths k \<le> of_int (capacity (spec_cans (hundredths k)))"
proof -
  define n where "n = capacity (spec_cans (hundredths k))"
  have n: "n = k div 100 + (if 0 < k mod 100 then 1 else 0)"
    unfolding n_def using assms by (rule capacity_hundredths)
  define d m where "d = k div 100" and "m = k mod 100"
  have km: "k = 100 * d + m" "0 \<le> m" "m < 100" unfolding d_def m_def by simp_all
  have n': "n = d + (if 0 < m then 1 else 0)" unfolding n d_def m_def ..
  have "k \<le> 100 * n" unfolding n' using km by (cases "0 < m") simp_all
  then have "real_of_int k \<le> real_of_int (100 * n)" by (simp only: of_int_le_iff)
  then have "real_of_int k / 100 \<le> of_int n" by simp
  then have "hundredths k \<le> fl (of_int n)" unfolding hundredths_def by (rule fl_mono)
  moreover have "fl (of_int n) = of_int n"
  proof (rule fl_of_int)
    have "0 \<le> d" unfolding d_def using assms(1) by (simp add: pos_imp_zdiv_nonneg_iff)
    moreover have "d \<le> k" using km(1,2) \<open>0 \<le> d\<close> by linarith
    ultimately have "0 \<le> n" "n \<le> k + 1" unfolding n' by simp_all
    with assms(2) show "\<bar>n\<bar> < 2 ^ 53" by simp
  qed
  ultimately show ?thesis unfolding n_def by simp
qed

lemma round2_pos_hundredths:
  assumes "0 < round2 x" "round2 x < 10 ^ 13"
  shows "\<exists>k. round2 x = hundredths k \<and> 0 \<le> k \<and> k < 10 ^ 15"
proof -
  define k where "k = round_half_even (x * 100)"
  have r: "round2 x = hundredths k" unfolding k_def by (rule round2_hundredths)
  have k0: "0 < k" using assms(1) unfolding r hundredths_pos_iff .
  have "k < 10 ^ 15"
  proof (rule ccontr)
    assume "\<not> k < 10 ^ 15"
    then have "100 * 10 ^ 13 \<le> k" by simp
    then have "hundredths (100 * 10 ^ 13) \<le> hundredths k" by (rule hundredths_mono)
    moreover have "hundredths (100 * 10 ^ 13) = of_int (10 ^ 13)"
      by (rule hundredths_of_whole) simp
    ultimately show False using assms(2) unfolding r by simp
  qed
  with r k0 show ?thesis by auto
qed




subsection \<open>The cans for 22 litres\<close>





lemma paint_estimate_default_100: "paint_estimate_default 100 = Inr (22, 5500)"
  unfolding paint_estimate_default_def paint_estimate_def Let_def
  by (simp add: float_eval)


lemma paint_litres_is_round2:
  assumes "paint_estimate_default a = Inr (l, cost)" "0 < l"
  shows "l = round2 (paint_litres_raw a)"
  using assms by (simp add: paint_estimate_default_eq split: if_splits)

subsection \<open>The cans for a very large wall\<close>

lemma big_count: "spec_count 63410682753376592 10 = 6341068275337659"
  unfolding spec_count_def float_floordiv_def Let_def
  by (simp add: float_eval)

lemma big_rest: "spec_rest 63410682753376592 10 = 0"
  unfolding spec_rest_def big_count
  by (simp add: float_eval)

lemma zero_count: "spec_count 0 4 = 0" "spec_count 0 1 = 0"
  unfolding spec_count_def float_floordiv_def Let_def
  by (simp_all add: float_eval)

lemma zero_rest: "spec_rest 0 4 = 0" "spec_rest 0 1 = 0"
  unfolding spec_rest_def zero_count by simp_all

subsection \<open>Rounding to two decimals twice\<close>

lemma fl_pos_mantissa:
  assumes "0 < x"
  obtains M where "fl x = of_int M * 2 powi (ilog2 x - 52)" "2 ^ 52 \<le> M" "M \<le> 2 ^ 53"
    "\<bar>real_of_int M - x / 2 powi (ilog2 x - 52)\<bar> \<le> 1 / 2"
proof -
  define e where "e = ilog2 x - 52"
  define t where "t = x / 2 powi e"
  define r where "r = round_half_even t"
  have f: "fl x = of_int r * 2 powi e"
    using assms by (simp add: fl_pos_eq round_at_def r_def t_def e_def)
  have "t \<le> real_of_int (2 ^ 53)"
    using scaled_bounds(2)[OF assms] unfolding e_def t_def by simp
  then have r2: "r \<le> 2 ^ 53" unfolding r_def by (rule round_half_even_le)
  have "real_of_int (2 ^ 52) \<le> t"
    using scaled_bounds(1)[OF assms] unfolding e_def t_def by simp
  then have r1: "2 ^ 52 \<le> r" unfolding r_def by (rule round_half_even_ge)
  have "t - 1/2 \<le> of_int r" "of_int r \<le> t + 1/2"
    unfolding r_def by (rule round_half_even_lower, rule round_half_even_upper)
  then have "\<bar>real_of_int r - t\<bar> \<le> 1 / 2" by linarith
  with f r1 r2 show thesis unfolding e_def t_def by (rule that)
qed

lemma fl_nearest:
  assumes "2 ^ 52 < M" "M < 2 ^ 53" "\<bar>x - of_int M * 2 powi e\<bar> < 2 powi e / 2"
  shows "fl x = of_int M * 2 powi e"
proof -
  define p where "p = (2::real) powi e"
  define m where "m = real_of_int M"
  define t where "t = x / p"
  have p: "0 < p" unfolding p_def by simp
  have "2 ^ 52 + 1 \<le> M" "M + 1 \<le> 2 ^ 53" using assms(1,2) by simp_all
  then have "real_of_int (2 ^ 52 + 1) \<le> m" "real_of_int (M + 1) \<le> real_of_int (2 ^ 53)"
    unfolding m_def by (simp_all only: of_int_le_iff)
  then have m: "2 ^ 52 + 1 \<le> m" "m + 1 \<le> 2 ^ 53" unfolding m_def by simp_all
  have xt: "x = t * p" unfolding t_def using p by simp
  have a3: "\<bar>x - m * p\<bar> < p / 2" using assms(3) unfolding p_def m_def .
  have "\<bar>t * p - m * p\<bar> < p / 2" using a3 unfolding xt[symmetric] .
  then have "\<bar>t - m\<bar> * p < (1 / 2) * p"
    using p by (simp add: left_diff_distrib[symmetric] abs_mult)
  then have tm: "\<bar>t - m\<bar> < 1 / 2" using p by (simp only: mult_less_cancel_right_pos)
  have t1: "2 ^ 52 \<le> t" and t2: "t < 2 ^ 53" using tm m by linarith+
  from t1 have "2 ^ 52 * p \<le> t * p" using p by (simp only: mult_le_cancel_right_pos)
  then have lo: "2 powi (e + 52) \<le> x" unfolding xt p_def by (simp add: power_int_add)
  from t2 have "t * p < 2 ^ 53 * p" using p by (simp only: mult_less_cancel_right_pos)
  then have hi: "x < 2 powi (e + 52 + 1)" unfolding xt p_def by (simp add: power_int_add)
  have x: "0 < x" using lo zero_less_power_int[of "2::real" "e + 52"] by linarith
  have il: "ilog2 x = e + 52" using x lo hi by (rule ilog2_unique)
  have "round_half_even t = M" using tm unfolding m_def by (rule round_half_even_unique)
  then show ?thesis using x by (simp add: fl_pos_eq il round_at_def t_def p_def)
qed

lemma hundredths_minus: "hundredths (- k) = - hundredths k"
  unfolding hundredths_def using fl_minus[of "real_of_int k / 100"] by simp

lemma round2_hundredths_pos:
  assumes "0 < k" shows "round2 (hundredths k) = hundredths k"
proof -
  define q where "q = real_of_int k / 100"
  define d where "d = hundredths k"
  have q: "0 < q" unfolding q_def using assms by simp
  have dq: "d = fl q" unfolding d_def q_def hundredths_def ..
  obtain M where M: "d = of_int M * 2 powi (ilog2 q - 52)" "2 ^ 52 \<le> M" "M \<le> 2 ^ 53"
    "\<bar>real_of_int M - q / 2 powi (ilog2 q - 52)\<bar> \<le> 1 / 2"
    unfolding dq using fl_pos_mantissa[OF q] by blast
  define e where "e = ilog2 q - 52"
  define p where "p = (2::real) powi e"
  have p: "0 < p" unfolding p_def by simp
  have err: "\<bar>d - q\<bar> \<le> p / 2"
  proof -
    define t where "t = q / p"
    have qt: "q = t * p" unfolding t_def using p by simp
    have "\<bar>real_of_int M - t\<bar> \<le> 1 / 2" using M(4) unfolding t_def p_def e_def .
    then have "\<bar>real_of_int M - t\<bar> * p \<le> (1 / 2) * p"
      using p by (simp only: mult_le_cancel_right_pos)
    moreover have "\<bar>d - q\<bar> = \<bar>real_of_int M - t\<bar> * p"
      unfolding M(1) e_def[symmetric] p_def[symmetric] using p
      by (subst qt) (simp add: abs_mult left_diff_distrib[symmetric])
    ultimately show ?thesis by simp
  qed
  show ?thesis
  proof (cases "e \<le> - 7")
    case True
    then have "p \<le> 2 powi (- 7)" unfolding p_def by (intro power_int_increasing) simp_all
    also have "(2::real) powi (- 7) = 1 / 128" using powi2_neg[of 7] by simp
    finally have "p \<le> 1 / 128" .
    define u where "u = d - q"
    define z where "z = d * 100 - real_of_int k"
    from \<open>p \<le> 1 / 128\<close> err have "\<bar>u\<bar> \<le> 1 / 256" unfolding u_def by linarith
    then have "- (1 / 256) \<le> u \<and> u \<le> 1 / 256" by linarith
    moreover have "z = 100 * u" unfolding z_def u_def q_def by simp
    ultimately have "- (1 / 2) < z \<and> z < 1 / 2" by simp
    then have "\<bar>z\<bar> < 1 / 2" by linarith
    then have "round_half_even (d * 100) = k" unfolding z_def by (rule round_half_even_unique)
    then show ?thesis unfolding d_def[symmetric] by (simp add: round2_hundredths d_def)
  next
    case False
    then have e6: "- 6 \<le> e" by simp
    show ?thesis
    proof (cases "M = 2 ^ 52 \<or> M = 2 ^ 53")
      case True
      have "d \<in> \<int>"
      proof -
        from True obtain j :: nat where j: "real_of_int M = 2 ^ j" "52 \<le> j" by (auto intro: that[of 52] that[of 53])
        have "0 \<le> e + int j" using e6 j(2) by simp
        then have "(2::real) powi (e + int j) = 2 ^ nat (e + int j)" by (simp add: power_int_nonneg_exp)
        moreover have "d = 2 powi (e + int j)"
          unfolding M(1) e_def[symmetric] j(1) by (simp add: power_int_add)
        ultimately have "d = of_int (2 ^ nat (e + int j))" by simp
        then show ?thesis by (simp only: Ints_of_int)
      qed
      moreover have "fl d = d" unfolding dq by simp
      ultimately show ?thesis unfolding d_def[symmetric] by (rule round2_int)
    next
      case False
      with M(2,3) have Mb: "2 ^ 52 < M" "M < 2 ^ 53" by simp_all
      define k' where "k' = round_half_even (d * 100)"
      have "d * 100 - 1/2 \<le> of_int k'" "of_int k' \<le> d * 100 + 1/2"
        unfolding k'_def by (rule round_half_even_lower, rule round_half_even_upper)
      then have c: "\<bar>real_of_int k' / 100 - d\<bar> \<le> 1 / 200" by linarith
      have "2 powi (- 6) \<le> p" unfolding p_def using e6 by (intro power_int_increasing) simp_all
      moreover have "(2::real) powi (- 6) = 1 / 64" using powi2_neg[of 6] by simp
      ultimately have "1 / 64 \<le> p" by simp
      with c have "\<bar>real_of_int k' / 100 - d\<bar> < p / 2" by linarith
      then have n: "fl (real_of_int k' / 100) = of_int M * 2 powi e"
        unfolding M(1) e_def[symmetric] p_def using Mb by (intro fl_nearest)
      have "round2 d = fl (real_of_int k' / 100)" unfolding round2_def k'_def ..
      also have "\<dots> = of_int M * 2 powi e" by (rule n)
      also have "\<dots> = d" unfolding M(1) e_def ..
      finally show ?thesis unfolding d_def .
    qed
  qed
qed

lemma round2_hundredths_idem: "round2 (hundredths k) = hundredths k"
proof -
  consider "0 < k" | "k = 0" | "k < 0" by linarith
  then show ?thesis
  proof cases
    case 1 then show ?thesis by (rule round2_hundredths_pos)
  next
    case 2 then show ?thesis by (simp add: hundredths_def)
  next
    case 3
    then have "round2 (hundredths (- k)) = hundredths (- k)" by (intro round2_hundredths_pos) simp
    then show ?thesis unfolding hundredths_minus round2_minus by simp
  qed
qed

lemma round2_idem [simp]: "round2 (round2 x) = round2 x"
  unfolding round2_hundredths[of x] by (rule round2_hundredths_idem)

subsection \<open>What is rounded to two decimals\<close>

lemma two_dp_round2 [simp]: "two_dp (round2 x)"
  by (simp add: two_dp_def)

lemma two_dp_zero [simp]: "two_dp 0"
  by (simp add: two_dp_def)

lemma two_dp_generic_labour [simp]: "two_dp (generic_labour a r)"
  by (simp add: generic_labour_def)

lemma two_dp_plumbing_estimate [simp]: "two_dp (plumbing_estimate n b p)"
  by (simp add: plumbing_estimate_def Let_def)

lemma two_dp_tiles_estimate [simp]:
  "two_dp (fst (tiles_estimate a w r))" "two_dp (snd (tiles_estimate a w r))"
  by (simp_all add: tiles_estimate_def Let_def)

lemma two_dp_paint_estimate:
  assumes "paint_estimate a cov coats w p = Inr (l, c)"
  shows "two_dp l" "two_dp c"
  using assms by (auto simp: paint_estimate_def Let_def split: if_splits)

text \<open>
  Outside the material cost of the Generic branch, every cost and quantity is a result of
  \<^verbatim>\<open>round(x, 2)\<close>.
\<close>

lemma rounded_outside_generic:
  "(\<exists>q. generate_estimate rq = Inr q \<and> two_dp (total q) \<and>
        (\<forall>l \<in> set (labour_costs q). two_dp l) \<and>
        (\<forall>m \<in> set (material_quantities q). two_dp m) \<and>
        (spec_branch (service q) \<noteq> Generic \<longrightarrow> (\<forall>c \<in> set (material_costs q). two_dp c))) \<and>
   (\<forall>l c. paint_estimate a cov coats w p = Inr (l, c) \<longrightarrow> two_dp l \<and> two_dp c) \<and>
   two_dp (fst (tiles_estimate a w' r)) \<and> two_dp (snd (tiles_estimate a w' r)) \<and>
   two_dp (plumbing_estimate n b pp) \<and> two_dp (generic_labour a lr)"
proof -
  have "\<exists>q. generate_estimate rq = Inr q \<and> two_dp (total q) \<and>
        (\<forall>l \<in> set (labour_costs q). two_dp l) \<and>
        (\<forall>m \<in> set (material_quantities q). two_dp m) \<and>
        (spec_branch (service q) \<noteq> Generic \<longrightarrow> (\<forall>c \<in> set (material_costs q). two_dp c))"
  proof (cases rq rule: generate_estimate_cases)
    case (paint l c)
    from paint(3) have "two_dp l" "two_dp c"
      unfolding paint_estimate_default_def by (rule two_dp_paint_estimate)+
    with paint show ?thesis
      by (simp add: material_costs_def labour_costs_def material_quantities_def
          generic_labour_default_def)
  next
    case tiles
    then show ?thesis
      by (simp add: material_costs_def labour_costs_def material_quantities_def
          tiles_estimate_default_def)
  next
    case plumb
    then show ?thesis
      by (simp add: material_costs_def labour_costs_def material_quantities_def)
  next
    case generic
    then show ?thesis
      by (simp add: material_costs_def labour_costs_def material_quantities_def)
  qed
  then show ?thesis using two_dp_paint_estimate[of a cov coats w p] by simp
qed

subsection \<open>A carpentry job of 0.0025 square metres\<close>

lemma carpentry_values:
  "generic_labour (fl (25/10000)) 80 = fl (20/100)"
  "fmul (fl (25/10000)) 150 = 3/8"
  "round2 (fadd (fl (20/100)) (3/8)) = fl (57/100)"
  unfolding generic_labour_def by (simp_all add: float_eval)

section \<open>The claims\<close>

text \<open>
  C1. For every area above zero and the default parameters, \<^verbatim>\<open>paint_estimate\<close> returns
  the litres \<^verbatim>\<open>(area / 10.0) * 2 * (1 + 0.1)\<close> and the cost of these litres at 250.0 each,
  and \<^verbatim>\<open>tiles_estimate\<close> returns the quantity \<^verbatim>\<open>area * (1 + 0.05)\<close> and its cost at
  600.0 each, every result rounded to two decimal places; 100 square metres of wall need
  22.0 litres for 5500.0, and 50 square metres of floor need 52.5 square metres of tiles
  for 31500.0.
\<close>

theorem paint_tiles_formula:
  assumes "0 < a"
  shows "paint_estimate_default a =
           Inr (round2 (fmul (fmul (fdiv a 10) (float_of_int 2)) (fadd 1 (fl (1/10)))),
                round2 (fmul (fmul (fmul (fdiv a 10) (float_of_int 2)) (fadd 1 (fl (1/10)))) 250)) \<and>
         tiles_estimate_default a =
           (round2 (fmul a (fadd 1 (fl (5/100)))),
            round2 (fmul (fmul a (fadd 1 (fl (5/100)))) 600)) \<and>
         paint_estimate_default 100 = Inr (22, 5500) \<and>
         tiles_estimate_default 50 = (525/10, 31500)"
proof -
  have 1: "paint_estimate_default 100 = Inr (22, 5500)"
    unfolding paint_estimate_default_def paint_estimate_def Let_def
    by (simp add: float_eval)
  have 2: "tiles_estimate_default 50 = (525/10, 31500)"
    unfolding tiles_estimate_default_def tiles_estimate_def Let_def
    by (simp add: float_eval)
  from assms 1 2 show ?thesis
    by (simp add: paint_estimate_default_def paint_estimate_def tiles_estimate_default_def
        tiles_estimate_def Let_def)
qed

theorem paint_tiles_formula_witness:
  "(0::real) < 100 \<and>
   paint_estimate_default 100 =
     Inr (round2 (fmul (fmul (fdiv 100 10) (float_of_int 2)) (fadd 1 (fl (1/10)))),
          round2 (fmul (fmul (fmul (fdiv 100 10) (float_of_int 2)) (fadd 1 (fl (1/10)))) 250))"
  using paint_tiles_formula[of 100] by simp

text \<open>
  C7. For every area that is zero or negative, \<^verbatim>\<open>paint_estimate\<close> and
  \<^verbatim>\<open>tiles_estimate\<close> return \<^verbatim>\<open>(0.0, 0.0)\<close> and \<^verbatim>\<open>generic_labour\<close> returns
  \<^verbatim>\<open>0.0\<close>, and for every point count that is zero or negative \<^verbatim>\<open>plumbing_estimate\<close>
  returns \<^verbatim>\<open>0.0\<close>, whatever the other parameters are: these inputs never raise, not
  even with a zero coverage.
\<close>

theorem degenerate_inputs:
  "(a \<le> 0 \<longrightarrow>
      paint_estimate a coverage coats wastage price_per_litre = Inr (0, 0) \<and>
      tiles_estimate a wastage' rate_per_m2 = (0, 0) \<and>
      generic_labour a labour_rate_per_m2 = 0) \<and>
   (n \<le> 0 \<longrightarrow> plumbing_estimate n base_charge per_point = 0)"
  by (simp add: paint_estimate_def tiles_estimate_def generic_labour_def plumbing_estimate_def)

theorem degenerate_inputs_witness:
  "(- 5 :: real) \<le> 0 \<and> (0 :: int) \<le> 0 \<and>
   paint_estimate_default (- 5) = Inr (0, 0) \<and> tiles_estimate_default (- 5) = (0, 0) \<and>
   generic_labour_default (- 5) = 0 \<and> plumbing_estimate_default 0 = 0"
  using degenerate_inputs[of "- 5" 10 2 "fl (1/10)" 250 "fl (5/100)" 600 30 0 500 300]
  by (simp add: paint_estimate_default_def tiles_estimate_default_def
      generic_labour_default_def plumbing_estimate_default_def)

text \<open>
  C3. Whatever the service name, quote generation picks the pricing branch by matching the
  name, ignoring case, against \<^verbatim>\<open>paint\<close>, then \<^verbatim>\<open>tile\<close>, then \<^verbatim>\<open>plumb\<close>: the first
  word that occurs in the name decides between the Painting, Tiles and Plumbing branches,
  and a name with none of them is priced by the Generic branch, at 80 per square metre
  for labour and 150 per square metre for material. The name is the text of the service
  spinner, with Painting standing in for an empty or unselected spinner.
\<close>

theorem dispatch_by_substring:
  "\<exists>q. generate_estimate rq = Inr q \<and>
        service q = (if svc_text rq = [] \<or> svc_text rq = ''Select Service''
                     then ''Painting'' else svc_text rq) \<and>
        area q = area_in rq \<and> points q = points_in rq \<and>
        (case spec_branch (service q) of
           Painting \<Rightarrow>
             (\<exists>litres mat_cost. paint_estimate_default (area q) = Inr (litres, mat_cost) \<and>
                breakdown q = [Title ''Painting'', Paint_material litres mat_cost,
                               Labour (generic_labour_default (area q))])
         | Tiles \<Rightarrow>
             breakdown q = [Title ''Tiling'',
                            Tiles_material (fst (tiles_estimate_default (area q)))
                                           (snd (tiles_estimate_default (area q))),
                            Labour (generic_labour (area q) 50)]
         | Plumbing \<Rightarrow>
             breakdown q = [Title ''Plumbing'', Points (max (points q) 1),
                            Total (plumbing_estimate_default (max (points q) 1))]
         | Generic \<Rightarrow>
             breakdown q = [Title (service q), Material_est (fmul (area q) 150),
                            Labour (generic_labour (area q) 80)])"
  by (cases rq rule: generate_estimate_cases) simp_all

theorem dispatch_by_substring_witness:
  "\<exists>q. generate_estimate \<lparr>svc_text = ''AC Service'', area_in = 12, points_in = 3,
                            current_image = [], ml_pred = None, mat_pred = None\<rparr> = Inr q \<and>
        breakdown q = [Title ''AC Service'', Material_est (fmul 12 150), Labour (generic_labour 12 80)]"
proof -
  let ?rq = "\<lparr>svc_text = ''AC Service'', area_in = 12, points_in = 3,
              current_image = [], ml_pred = None, mat_pred = None\<rparr>"
  from dispatch_by_substring[of ?rq] obtain q where
    q: "generate_estimate ?rq = Inr q" and
    s: "service q = (if svc_text ?rq = [] \<or> svc_text ?rq = ''Select Service''
                     then ''Painting'' else svc_text ?rq)" and
    a: "area q = area_in ?rq" and
    c: "case spec_branch (service q) of
           Painting \<Rightarrow>
             (\<exists>litres mat_cost. paint_estimate_default (area q) = Inr (litres, mat_cost) \<and>
                breakdown q = [Title ''Painting'', Paint_material litres mat_cost,
                               Labour (generic_labour_default (area q))])
         | Tiles \<Rightarrow>
             breakdown q = [Title ''Tiling'',
                            Tiles_material (fst (tiles_estimate_default (area q)))
                                           (snd (tiles_estimate_default (area q))),
                            Labour (generic_labour (area q) 50)]
         | Plumbing \<Rightarrow>
             breakdown q = [Title ''Plumbing'', Points (max (points q) 1),
                            Total (plumbing_estimate_default (max (points q) 1))]
         | Generic \<Rightarrow>
             breakdown q = [Title (service q), Material_est (fmul (area q) 150),
                            Labour (generic_labour (area q) 80)]"
    by (elim exE conjE)
  have s': "service q = ''AC Service''" using s by simp
  have "spec_branch (service q) = Generic"
    unfolding s' by (simp add: spec_branch_code string_eval)
  with c s' a have "breakdown q = [Title ''AC Service'', Material_est (fmul 12 150),
                                    Labour (generic_labour 12 80)]"
    by simp
  with q show ?thesis by blast
qed

text \<open>
  C8. In the Painting, Tiles and Generic branches the stored total is the sum of the
  material cost and the labour cost of the breakdown, rounded to two decimal places; in the
  Plumbing branch the breakdown has neither cost and the total is the one charge of the
  callout plus the points.
\<close>

theorem stored_total:
  "\<exists>q. generate_estimate rq = Inr q \<and>
        (if spec_branch (service q) = Plumbing
         then material_costs q = [] \<and> labour_costs q = [] \<and>
              total q = fadd 500 (fmul (float_of_int (max (points q) 1)) 300)
         else \<exists>m l. material_costs q = [m] \<and> labour_costs q = [l] \<and>
                total q = round2 (fadd m l))"
proof (cases rq rule: generate_estimate_cases)
  case (plumb)
  then show ?thesis
    by (simp add: material_costs_def labour_costs_def
        round2_plumbing_raw plumbing_estimate_default_pos)
next
  case (generic)
  then show ?thesis
    by (simp add: material_costs_def labour_costs_def fadd_def add.commute)
qed (simp_all add: material_costs_def labour_costs_def)

theorem stored_total_witness:
  "\<exists>q. generate_estimate \<lparr>svc_text = ''Painting'', area_in = 100, points_in = 0,
                            current_image = [], ml_pred = None, mat_pred = None\<rparr> = Inr q \<and>
        (\<exists>m l. material_costs q = [m] \<and> labour_costs q = [l] \<and> total q = round2 (fadd m l))"
proof -
  let ?rq = "\<lparr>svc_text = ''Painting'', area_in = 100, points_in = 0,
              current_image = [], ml_pred = None, mat_pred = None\<rparr>"
  from stored_total[of ?rq] obtain q where
    q: "generate_estimate ?rq = Inr q" and
    t: "if spec_branch (service q) = Plumbing
        then material_costs q = [] \<and> labour_costs q = [] \<and>
             total q = fadd 500 (fmul (float_of_int (max (points q) 1)) 300)
        else \<exists>m l. material_costs q = [m] \<and> labour_costs q = [l] \<and>
               total q = round2 (fadd m l)"
    by (elim exE conjE)
  have "service q = ''Painting''" using generate_estimate_service(1)[OF q] by simp
  then have "spec_branch (service q) = Painting"
    by (simp add: spec_branch_code string_eval)
  with t have "\<exists>m l. material_costs q = [m] \<and> labour_costs q = [l] \<and> total q = round2 (fadd m l)"
    by simp
  with q show ?thesis by blast
qed



text \<open>
  C9, as the code has it. With the default parameters \<^verbatim>\<open>paint_estimate\<close> and
  \<^verbatim>\<open>tiles_estimate\<close> are non-decreasing in the area, over all areas and in both
  components. \<^verbatim>\<open>plumbing_estimate\<close> is non-decreasing in the point count from one point
  on, and strictly increasing as long as \<^verbatim>\<open>500 + 300 * points\<close> stays below \<open>2 ^ 53\<close>, that
  is up to 30023997515801 points, where the float arithmetic is exact.
\<close>

theorem estimates_monotone:
  "(a1 \<le> a2 \<longrightarrow>
      (\<exists>l1 c1 l2 c2. paint_estimate_default a1 = Inr (l1, c1) \<and>
          paint_estimate_default a2 = Inr (l2, c2) \<and> l1 \<le> l2 \<and> c1 \<le> c2) \<and>
      fst (tiles_estimate_default a1) \<le> fst (tiles_estimate_default a2) \<and>
      snd (tiles_estimate_default a1) \<le> snd (tiles_estimate_default a2)) \<and>
   (1 \<le> n \<and> n \<le> m \<longrightarrow> plumbing_estimate_default n \<le> plumbing_estimate_default m) \<and>
   (1 \<le> n \<and> n < m \<and> m \<le> 30023997515801 \<longrightarrow>
      plumbing_estimate_default n < plumbing_estimate_default m)"
proof -
  have "plumbing_estimate_default n < plumbing_estimate_default m"
    if "1 \<le> n" "n < m" "m \<le> 30023997515801"
  proof -
    have "plumbing_estimate_default n = 500 + 300 * of_int n"
      using that by (intro plumbing_exact) simp_all
    moreover have "plumbing_estimate_default m = 500 + 300 * of_int m"
      using that by (intro plumbing_exact) simp_all
    ultimately show ?thesis using that(2) by simp
  qed
  then show ?thesis
    using paint_estimate_default_mono[of a1 a2] tiles_estimate_default_mono[of a1 a2]
      plumbing_estimate_default_mono[of n m]
    by blast
qed

theorem estimates_monotone_witness:
  "(10::real) \<le> 20 \<and> (1::int) \<le> 1 \<and> (1::int) < 2 \<and> (2::int) \<le> 30023997515801 \<and>
   fst (tiles_estimate_default 10) \<le> fst (tiles_estimate_default 20) \<and>
   plumbing_estimate_default 1 \<le> plumbing_estimate_default 2 \<and>
   plumbing_estimate_default 1 < plumbing_estimate_default 2"
  using estimates_monotone[of 10 20 1 2] by simp

text \<open>
  C9 as it is written fails for large point counts: \<open>2 ^ 53\<close> and \<open>2 ^ 53 + 1\<close> points
  convert to the same float, so both cost the same.
\<close>

theorem plumbing_not_strict:
  "(1::int) \<le> 9007199254740992 \<and> (9007199254740992::int) < 9007199254740993 \<and>
   \<not> plumbing_estimate_default 9007199254740992 < plumbing_estimate_default 9007199254740993"
proof -
  have "plumbing_estimate_default 9007199254740992 = 2702159776422298112"
    unfolding plumbing_estimate_default_def plumbing_estimate_def Let_def
    by (simp add: float_eval)
  moreover have "plumbing_estimate_default 9007199254740993 = 2702159776422298112"
    unfolding plumbing_estimate_default_def plumbing_estimate_def Let_def
    by (simp add: float_eval)
  ultimately show ?thesis by simp
qed

text \<open>
  C6 says that the number of boxes is the quantity divided by 1.2, rounded up. The code
  gets there with \<^verbatim>\<open>sqm // box_cover\<close> and \<^verbatim>\<open>sqm % box_cover > 0\<close>, and the float
  \<^verbatim>\<open>1.2\<close> lies just below 1.2: a floor of 40 square metres needs 42.0 square metres of
  tiles, which is 35 boxes, and the remainder of 42.0 by the float is a positive
  \<open>2 powi (- 52)\<close>-sized residue, so the suggestion is 36 boxes.
\<close>

theorem tiles_40_boxes:
  "(case generate_estimate \<lparr>svc_text = ''Tiles'', area_in = 40, points_in = 0,
                             current_image = [], ml_pred = None, mat_pred = None\<rparr> of
      Inl e \<Rightarrow> False
    | Inr q \<Rightarrow> breakdown q = [Title ''Tiling'', Tiles_material 42 25200, Labour 2000] \<and>
              mat_text q = Tiles_purchase 36 (fl (432/10)) 42) \<and>
   \<lceil>(42::real) / (12/10)\<rceil> = 35 \<and> \<lceil>fdiv 42 (fl (12/10))\<rceil> = 35"
proof -
  let ?rq = "\<lparr>svc_text = ''Tiles'', area_in = 40, points_in = 0,
              current_image = [], ml_pred = None, mat_pred = None\<rparr>"
  have l: "generic_labour 40 50 = 2000"
    unfolding generic_labour_def by (simp add: float_eval)
  have "generate_estimate ?rq =
          Inr \<lparr>service = ''Tiles'', area = 40, points = 0, total = 27200,
               breakdown = [Title ''Tiling'', Tiles_material 42 25200, Labour 2000],
               image = [], mat_text = Tiles_purchase 36 (fl (432/10)) 42,
               est_total = 27200, ml_text = None\<rparr>"
  proof (cases ?rq rule: generate_estimate_cases)
    case tiles
    have "fadd 25200 2000 = 27200" "round2 27200 = 27200" by (simp_all add: float_eval)
    with tiles(4) show ?thesis
      by (simp add: tiles_estimate_default_40 l suggest_def string_eval tiles_suggestion_42 no_qty_def)
  qed (simp_all add: string_eval)
  then have "case generate_estimate ?rq of
      Inl e \<Rightarrow> False
    | Inr q \<Rightarrow> breakdown q = [Title ''Tiling'', Tiles_material 42 25200, Labour 2000] \<and>
              mat_text q = Tiles_purchase 36 (fl (432/10)) 42"
    by (simp only: sum.case quote.simps)
  with ceiling_42_by_box show ?thesis by (intro conjI)
qed



text \<open>
  C10, as the code has it. When the litres that \<^verbatim>\<open>paint_estimate\<close> returns are above
  zero and below ten to the thirteen, the cans of the suggestion hold at least these
  litres: ten times the cans of ten litres, four times the cans of four and the cans of
  one litre, the extra can included.
\<close>

theorem cans_cover_litres:
  "paint_estimate_default a = Inr (l, cost) \<and> 0 < l \<and> l < 10 ^ 13 \<longrightarrow>
     l \<le> of_int (capacity (paint_cans l))"
proof
  assume h: "paint_estimate_default a = Inr (l, cost) \<and> 0 < l \<and> l < 10 ^ 13"
  then have r: "l = round2 (paint_litres_raw a)" by (intro paint_litres_is_round2) simp_all
  with h obtain k where k: "l = hundredths k" "0 \<le> k" "k < 10 ^ 15"
    using round2_pos_hundredths[of "paint_litres_raw a"] by auto
  show "l \<le> of_int (capacity (paint_cans l))"
    unfolding paint_cans_spec k(1) using k(2,3) by (rule hundredths_le_capacity)
qed

theorem cans_cover_litres_witness:
  "paint_estimate_default 100 = Inr (22, 5500) \<and> (0::real) < 22 \<and> (22::real) < 10 ^ 13 \<and>
   (22::real) \<le> of_int (capacity (paint_cans 22))"
  using cans_cover_litres[of 100 22 5500] by (simp add: paint_estimate_default_100)

text \<open>
  C10 as it is written fails for very large walls, where the floats are further apart
  than the can sizes: for \<open>2 ^ 58\<close> square metres the product of the count and the size
  rounds up to the litres, nothing remains, and the cans hold two litres too few.
\<close>

theorem cans_fall_short:
  "paint_estimate_default 288230376151711744 = Inr (63410682753376592, 15852670688344147968) \<and>
   (0::real) < 63410682753376592 \<and>
   paint_cans 63410682753376592 = [(''10L'', 6341068275337659)] \<and>
   real_of_int (capacity (paint_cans 63410682753376592)) < 63410682753376592"
proof -
  have 1: "paint_estimate_default 288230376151711744 =
           Inr (63410682753376592, 15852670688344147968)"
    unfolding paint_estimate_default_def paint_estimate_def Let_def
    by (simp add: float_eval)
  have 2: "paint_cans 63410682753376592 = [(''10L'', 6341068275337659)]"
    unfolding paint_cans_spec spec_cans_def Let_def big_count big_rest zero_count zero_rest
    by simp
  have 3: "capacity [(''10L'', 6341068275337659)] = 63410682753376590"
    by (simp add: capacity_def dict_get_def)
  show ?thesis unfolding 2 3 using 1 by simp
qed

text \<open>
  C4 says that in every branch the material quantity, the material cost, the labour cost
  and the total of an estimate are rounded to two decimal places. The Generic branch
  misses the material cost: \<^verbatim>\<open>material = area * 150\<close> is not rounded, while the labour
  cost next to it and the stored total are. For a carpentry job of 0.0025 square metres the
  material cost is 0.375, printed as 0.38 beside a labour cost of 0.20, and the total of
  this quote is 0.57, stored and printed; with the material cost rounded it would be 0.58.
\<close>

theorem carpentry_material_not_rounded:
  "generate_estimate \<lparr>svc_text = ''Carpentry'', area_in = fl (25/10000), points_in = 0,
                       current_image = [], ml_pred = None, mat_pred = None\<rparr> =
     Inr \<lparr>service = ''Carpentry'', area = fl (25/10000), points = 0, total = fl (57/100),
          breakdown = [Title ''Carpentry'', Material_est (3/8), Labour (fl (20/100))],
          image = [], mat_text = Generic_material (fl (25/10000)),
          est_total = fadd (fl (20/100)) (3/8), ml_text = None\<rparr> \<and>
   \<not> two_dp (3/8) \<and>
   shown_2f (3/8) = 38/100 \<and> shown_2f (fl (20/100)) = 20/100 \<and>
   shown_2f (fadd (fl (20/100)) (3/8)) = 57/100 \<and>
   round2 (fadd (round2 (3/8)) (fl (20/100))) = fl (58/100)"
proof -
  let ?rq = "\<lparr>svc_text = ''Carpentry'', area_in = fl (25/10000), points_in = 0,
                       current_image = [], ml_pred = None, mat_pred = None\<rparr>"
  have g: "generate_estimate ?rq =
     Inr \<lparr>service = ''Carpentry'', area = fl (25/10000), points = 0, total = fl (57/100),
          breakdown = [Title ''Carpentry'', Material_est (3/8), Labour (fl (20/100))],
          image = [], mat_text = Generic_material (fl (25/10000)),
          est_total = fadd (fl (20/100)) (3/8), ml_text = None\<rparr>"
  proof (cases ?rq rule: generate_estimate_cases)
    case generic
    show ?thesis
      unfolding generic(5)
      by (simp only: request.simps if_False list.simps carpentry_values suggest_def
            generic(2,3,4) no_qty_def material_qty.simps option.case)
         (simp add: string_eval)
  qed (simp_all add: string_eval)
  have n: "\<not> two_dp (3/8)" unfolding two_dp_def by (simp add: float_eval)
  have s1: "shown_2f (3/8) = 38/100" unfolding shown_2f_def by (simp add: float_eval)
  have s2: "shown_2f (fl (20/100)) = 20/100" unfolding shown_2f_def by (simp add: float_eval)
  have s3: "shown_2f (fadd (fl (20/100)) (3/8)) = 57/100"
    unfolding shown_2f_def by (simp add: float_eval)
  have r: "round2 (fadd (round2 (3/8)) (fl (20/100))) = fl (58/100)" by (simp add: float_eval)
  from g n s1 s2 s3 r show ?thesis by (intro conjI)
qed

end
